theory Spec2Isabelle
  imports Main "HOL-Library.Word"
begin

section \<open>The engine capability interface\<close>

text \<open>
  The wrapper (\<^verbatim>\<open>sqlite3_wrapper.h\<close>) and the migration runner (\<^verbatim>\<open>migrations.h\<close>) call the
  \<^verbatim>\<open>sqlite3_*\<close> C functions of an external library. The library is not part of the
  repository, so it is a parameter of the embedding: a record of functions over an engine
  state \<open>'e\<close>, one field per C function the code calls. A function of the C API that
  returns a status and changes the engine returns the status paired with the new state;
  an out-parameter (\<^verbatim>\<open>sqlite3_stmt **\<close>) is returned beside the status.

  Pointers are addresses, \<open>nullptr\<close> being \<open>0\<close>. Status and type codes are C \<^verbatim>\<open>int\<close>s with
  the values of \<^verbatim>\<open>sqlite3.h\<close>.
\<close>

type_synonym sqlite3_ptr = nat
type_synonym sqlite3_stmt_ptr = nat

abbreviation (input) nullptr :: nat where "nullptr \<equiv> 0"

abbreviation (input) SQLITE_OK :: int where "SQLITE_OK \<equiv> 0"
abbreviation (input) SQLITE_ERROR :: int where "SQLITE_ERROR \<equiv> 1"
abbreviation (input) SQLITE_CONSTRAINT :: int where "SQLITE_CONSTRAINT \<equiv> 19"
abbreviation (input) SQLITE_MISUSE :: int where "SQLITE_MISUSE \<equiv> 21"
abbreviation (input) SQLITE_RANGE :: int where "SQLITE_RANGE \<equiv> 25"
abbreviation (input) SQLITE_ROW :: int where "SQLITE_ROW \<equiv> 100"
abbreviation (input) SQLITE_DONE :: int where "SQLITE_DONE \<equiv> 101"

abbreviation (input) SQLITE_INTEGER :: int where "SQLITE_INTEGER \<equiv> 1"
abbreviation (input) SQLITE_NULL :: int where "SQLITE_NULL \<equiv> 5"

abbreviation (input) SQLITE_PREPARE_PERSISTENT :: nat where "SQLITE_PREPARE_PERSISTENT \<equiv> 1"

datatype bind_policy = STATIC | TRANSIENT

datatype transaction_type = DEFERRED | IMMEDIATE | EXCLUSIVE

record 'e engine =
  sqlite3_open_v2 :: "string \<Rightarrow> int \<Rightarrow> 'e \<Rightarrow> (int \<times> sqlite3_ptr) \<times> 'e"
  sqlite3_close_v2 :: "sqlite3_ptr \<Rightarrow> 'e \<Rightarrow> 'e"
  sqlite3_errmsg :: "sqlite3_ptr \<Rightarrow> 'e \<Rightarrow> string"
  sqlite3_db_handle :: "sqlite3_stmt_ptr \<Rightarrow> 'e \<Rightarrow> sqlite3_ptr"
  sqlite3_prepare_v3 :: "sqlite3_ptr \<Rightarrow> string \<Rightarrow> nat \<Rightarrow> 'e \<Rightarrow> (int \<times> sqlite3_stmt_ptr) \<times> 'e"
  sqlite3_finalize :: "sqlite3_stmt_ptr \<Rightarrow> 'e \<Rightarrow> 'e"
  sqlite3_reset :: "sqlite3_stmt_ptr \<Rightarrow> 'e \<Rightarrow> int \<times> 'e"
  sqlite3_step :: "sqlite3_stmt_ptr \<Rightarrow> 'e \<Rightarrow> int \<times> 'e"
  sqlite3_bind_int :: "sqlite3_stmt_ptr \<Rightarrow> nat \<Rightarrow> 32 word \<Rightarrow> 'e \<Rightarrow> int \<times> 'e"
  sqlite3_bind_int64 :: "sqlite3_stmt_ptr \<Rightarrow> nat \<Rightarrow> 64 word \<Rightarrow> 'e \<Rightarrow> int \<times> 'e"
  sqlite3_bind_null :: "sqlite3_stmt_ptr \<Rightarrow> nat \<Rightarrow> 'e \<Rightarrow> int \<times> 'e"
  sqlite3_column_int :: "sqlite3_stmt_ptr \<Rightarrow> nat \<Rightarrow> 'e \<Rightarrow> 32 word"
  sqlite3_column_int64 :: "sqlite3_stmt_ptr \<Rightarrow> nat \<Rightarrow> 'e \<Rightarrow> 64 word"
  sqlite3_column_type :: "sqlite3_stmt_ptr \<Rightarrow> nat \<Rightarrow> 'e \<Rightarrow> int"

section \<open>sqlite3\_wrapper.h\<close>

subsection \<open>exception\<close>

text \<open>
  \<^verbatim>\<open>class exception : public std::runtime_error\<close>; the payload is the text of \<^verbatim>\<open>what()\<close>.
  A function that can throw returns \<open>exception + 'a\<close>, \<open>Inl\<close> being the throw, paired with
  the state it leaves behind.
\<close>

datatype exception = Exception string

definition exception_db :: "'e engine \<Rightarrow> sqlite3_ptr \<Rightarrow> 'e \<Rightarrow> exception" where
  "exception_db E db e = Exception (sqlite3_errmsg E db e)"

definition exception_statement :: "'e engine \<Rightarrow> sqlite3_stmt_ptr \<Rightarrow> 'e \<Rightarrow> exception" where
  "exception_statement E st e = exception_db E (sqlite3_db_handle E st e) e"

subsection \<open>type\_traits\<close>

text \<open>
  \<^verbatim>\<open>type_traits<std::optional<T>>\<close> is a template over \<^verbatim>\<open>T\<close>: it becomes a function of
  \<^verbatim>\<open>type_traits<T>::bind\<close> and \<^verbatim>\<open>type_traits<T>::column\<close>. An output argument
  \<^verbatim>\<open>T &arg\<close> is passed as its old value and returned as its new value. \<^verbatim>\<open>arg.emplace()\<close>
  replaces the content by a value-initialised \<^verbatim>\<open>T\<close>, here the parameter \<open>emplaced\<close>.
\<close>

definition optional_bind ::
  "(sqlite3_stmt_ptr \<Rightarrow> nat \<Rightarrow> 't \<Rightarrow> bind_policy \<Rightarrow> 'e \<Rightarrow> int \<times> 'e) \<Rightarrow>
   'e engine \<Rightarrow> sqlite3_stmt_ptr \<Rightarrow> nat \<Rightarrow> 't option \<Rightarrow> bind_policy \<Rightarrow> 'e \<Rightarrow> int \<times> 'e" where
  "optional_bind bind_T E statement index arg policy e =
     (case arg of
        Some v \<Rightarrow> bind_T statement index v policy e
      | None \<Rightarrow> sqlite3_bind_null E statement index e)"

definition optional_column ::
  "(sqlite3_stmt_ptr \<Rightarrow> nat \<Rightarrow> 't \<Rightarrow> 'e \<Rightarrow> 't) \<Rightarrow> 't \<Rightarrow>
   'e engine \<Rightarrow> sqlite3_stmt_ptr \<Rightarrow> nat \<Rightarrow> 't option \<Rightarrow> 'e \<Rightarrow> 't option" where
  "optional_column column_T emplaced E statement column arg e =
     (if sqlite3_column_type E statement column e \<noteq> SQLITE_NULL
      then Some (column_T statement column emplaced e)
      else None)"

text \<open>
  The C++11 variant of the header uses \<^verbatim>\<open>boost::optional<T>\<close>. Its \<^verbatim>\<open>bind\<close> is the same
  function; its \<^verbatim>\<open>column\<close> tests for NULL first and otherwise reads into \<^verbatim>\<open>*arg\<close>.
  \<^verbatim>\<open>operator*\<close> of an empty \<^verbatim>\<open>boost::optional\<close> has undefined behaviour, which the model
  makes a result of its own.
\<close>

datatype 'a defined = Undefined_behaviour | Defined 'a

definition boost_optional_bind ::
  "(sqlite3_stmt_ptr \<Rightarrow> nat \<Rightarrow> 't \<Rightarrow> bind_policy \<Rightarrow> 'e \<Rightarrow> int \<times> 'e) \<Rightarrow>
   'e engine \<Rightarrow> sqlite3_stmt_ptr \<Rightarrow> nat \<Rightarrow> 't option \<Rightarrow> bind_policy \<Rightarrow> 'e \<Rightarrow> int \<times> 'e" where
  "boost_optional_bind bind_T E statement index arg policy e =
     (case arg of
        Some v \<Rightarrow> bind_T statement index v policy e
      | None \<Rightarrow> sqlite3_bind_null E statement index e)"

definition boost_optional_column ::
  "(sqlite3_stmt_ptr \<Rightarrow> nat \<Rightarrow> 't \<Rightarrow> 'e \<Rightarrow> 't defined) \<Rightarrow>
   'e engine \<Rightarrow> sqlite3_stmt_ptr \<Rightarrow> nat \<Rightarrow> 't option \<Rightarrow> 'e \<Rightarrow> 't option defined" where
  "boost_optional_column column_T E statement column arg e =
     (if sqlite3_column_type E statement column e = SQLITE_NULL
      then Defined None
      else (case arg of
              None \<Rightarrow> Undefined_behaviour
            | Some v \<Rightarrow> (case column_T statement column v e of
                          Undefined_behaviour \<Rightarrow> Undefined_behaviour
                        | Defined v' \<Rightarrow> Defined (Some v'))))"

text \<open>
  A parameter pack \<^verbatim>\<open>Args...\<close> is a list of tagged values. The universe holds the
  integral specialisations and \<^verbatim>\<open>std::optional\<close> over them; an optional carries the tag
  of its \<^verbatim>\<open>T\<close>, which \<^verbatim>\<open>emplace()\<close> needs when the optional is empty.
\<close>

datatype ctype = T_int32 | T_int64 | T_optional ctype

datatype cval = V_int32 "32 word" | V_int64 "64 word" | V_optional ctype "cval option"

fun value_initialized :: "ctype \<Rightarrow> cval" where
  "value_initialized T_int32 = V_int32 0"
| "value_initialized T_int64 = V_int64 0"
| "value_initialized (T_optional t) = V_optional t None"

lemma optional_bind_cong [fundef_cong]:
  "\<lbrakk>arg = arg'; statement = statement'; index = index'; policy = policy'; e = e'; E = E';
    \<And>v. arg' = Some v \<Longrightarrow> bind_T statement' index' v policy' e' = bind_T' statement' index' v policy' e'\<rbrakk>
   \<Longrightarrow> optional_bind bind_T E statement index arg policy e
       = optional_bind bind_T' E' statement' index' arg' policy' e'"
  by (simp add: optional_bind_def split: option.splits)

fun type_traits_bind ::
  "'e engine \<Rightarrow> sqlite3_stmt_ptr \<Rightarrow> nat \<Rightarrow> cval \<Rightarrow> bind_policy \<Rightarrow> 'e \<Rightarrow> int \<times> 'e" where
  "type_traits_bind E statement index (V_int32 arg) policy e =
     sqlite3_bind_int E statement index arg e"
| "type_traits_bind E statement index (V_int64 arg) policy e =
     sqlite3_bind_int64 E statement index arg e"
| "type_traits_bind E statement index (V_optional t arg) policy e =
     optional_bind (type_traits_bind E) E statement index arg policy e"

lemma optional_column_cong [fundef_cong]:
  "\<lbrakk>emplaced = emplaced'; statement = statement'; column = column'; arg = arg'; e = e'; E = E';
    column_T statement' column' emplaced' e' = column_T' statement' column' emplaced' e'\<rbrakk>
   \<Longrightarrow> optional_column column_T emplaced E statement column arg e
       = optional_column column_T' emplaced' E' statement' column' arg' e'"
  by (simp add: optional_column_def)

fun nesting :: "cval \<Rightarrow> nat" where
  "nesting (V_optional t arg) = Suc (size t)"
| "nesting v = 0"

lemma nesting_value_initialized: "nesting (value_initialized t) \<le> size t"
  by (cases t) simp_all

function type_traits_column :: "'e engine \<Rightarrow> sqlite3_stmt_ptr \<Rightarrow> nat \<Rightarrow> cval \<Rightarrow> 'e \<Rightarrow> cval" where
  "type_traits_column E statement column (V_int32 arg) e =
     V_int32 (sqlite3_column_int E statement column e)"
| "type_traits_column E statement column (V_int64 arg) e =
     V_int64 (sqlite3_column_int64 E statement column e)"
| "type_traits_column E statement column (V_optional t arg) e =
     V_optional t
       (optional_column (type_traits_column E) (value_initialized t) E statement column arg e)"
  by pat_completeness auto
termination
  by (relation "measure (\<lambda>(E, statement, column, arg, e). nesting arg)")
     (simp_all add: nesting_value_initialized less_Suc_eq_le)

subsection \<open>statement\<close>

text \<open>
  \<^verbatim>\<open>class statement\<close> has the members \<^verbatim>\<open>bool _can_fetch = false\<close> and
  \<^verbatim>\<open>sqlite3_stmt *_statement = nullptr\<close>, here the fields \<open>can_fetch\<close> and \<open>stmt_handle\<close>
  (\<^verbatim>\<open>_db\<close> of \<^verbatim>\<open>class db\<close> is \<open>db_handle\<close>). A member function takes the object and the
  engine state and returns both; on a throw the object is returned as the throw leaves it.
\<close>

record statement =
  can_fetch :: bool
  stmt_handle :: sqlite3_stmt_ptr

text \<open>
  The constructor throws \<^verbatim>\<open>exception(db)\<close> when the statement does not compile; the C++11
  variant of the header throws \<^verbatim>\<open>exception(sql, db)\<close>, whose text also quotes the SQL.
\<close>

definition statement_ctor ::
  "'e engine \<Rightarrow> sqlite3_ptr \<Rightarrow> string \<Rightarrow> nat \<Rightarrow> 'e \<Rightarrow> (exception + statement) \<times> 'e" where
  "statement_ctor E db sql prepare_flags e =
     (case sqlite3_prepare_v3 E db sql prepare_flags e of
        ((res, p), e1) \<Rightarrow>
          if res \<noteq> SQLITE_OK then (Inl (exception_db E db e1), e1)
          else (Inr \<lparr>can_fetch = False, stmt_handle = p\<rparr>, e1))"

text \<open>
  The move constructor swaps the members of the new object, which hold their default
  initialisers, with those of \<^verbatim>\<open>another\<close>; move assignment swaps the members of \<^verbatim>\<open>*this\<close>
  with those of \<^verbatim>\<open>another\<close>. Both return the pair (this object, \<^verbatim>\<open>another\<close>) afterwards.
\<close>

definition statement_move_ctor :: "statement \<Rightarrow> statement \<times> statement" where
  "statement_move_ctor another =
     (let this = \<lparr>can_fetch = False, stmt_handle = nullptr\<rparr>
      in (\<lparr>can_fetch = can_fetch another, stmt_handle = stmt_handle another\<rparr>,
          \<lparr>can_fetch = can_fetch this, stmt_handle = stmt_handle this\<rparr>))"

definition statement_move_assign :: "statement \<Rightarrow> statement \<Rightarrow> statement \<times> statement" where
  "statement_move_assign this another =
     (\<lparr>can_fetch = can_fetch another, stmt_handle = stmt_handle another\<rparr>,
      \<lparr>can_fetch = can_fetch this, stmt_handle = stmt_handle this\<rparr>)"

definition statement_dtor :: "'e engine \<Rightarrow> statement \<Rightarrow> 'e \<Rightarrow> 'e" where
  "statement_dtor E this e =
     (if stmt_handle this \<noteq> nullptr then sqlite3_finalize E (stmt_handle this) e else e)"

definition statement_reset :: "'e engine \<Rightarrow> statement \<Rightarrow> 'e \<Rightarrow> (exception + unit) \<times> 'e" where
  "statement_reset E this e =
     (case sqlite3_reset E (stmt_handle this) e of
        (res, e1) \<Rightarrow>
          if res \<noteq> SQLITE_OK then (Inl (exception_statement E (stmt_handle this) e1), e1)
          else (Inr (), e1))"

definition statement_step ::
  "'e engine \<Rightarrow> statement \<Rightarrow> 'e \<Rightarrow> (exception + unit) \<times> statement \<times> 'e" where
  "statement_step E this e =
     (case sqlite3_step E (stmt_handle this) e of
        (res, e1) \<Rightarrow>
          if res \<noteq> SQLITE_ROW \<and> res \<noteq> SQLITE_DONE
          then (Inl (exception_statement E (stmt_handle this) e1), this, e1)
          else (Inr (), this\<lparr>can_fetch := (res = SQLITE_ROW)\<rparr>, e1))"

text \<open>\<^verbatim>\<open>bind<Index>(policy, arg, args...)\<close>: the recursion over the pack, \<^verbatim>\<open>Index\<close> from 1.\<close>

fun statement_bind ::
  "'e engine \<Rightarrow> statement \<Rightarrow> nat \<Rightarrow> bind_policy \<Rightarrow> cval list \<Rightarrow> 'e \<Rightarrow> (exception + unit) \<times> 'e" where
  "statement_bind E this Index policy [] e = (Inr (), e)"
| "statement_bind E this Index policy (arg # args) e =
     (case type_traits_bind E (stmt_handle this) Index arg policy e of
        (res, e1) \<Rightarrow>
          if res \<noteq> SQLITE_OK then (Inl (exception_statement E (stmt_handle this) e1), e1)
          else statement_bind E this (Index + 1) policy args e1)"

text \<open>\<^verbatim>\<open>column<Column>(arg, args...)\<close>: the recursion over the outputs, \<^verbatim>\<open>Column\<close> from 0.\<close>

fun statement_column :: "'e engine \<Rightarrow> statement \<Rightarrow> nat \<Rightarrow> cval list \<Rightarrow> 'e \<Rightarrow> cval list" where
  "statement_column E this Column [] e = []"
| "statement_column E this Column (arg # args) e =
     type_traits_column E (stmt_handle this) Column arg e
       # statement_column E this (Column + 1) args e"

definition statement_execute_policy ::
  "'e engine \<Rightarrow> statement \<Rightarrow> bind_policy \<Rightarrow> cval list \<Rightarrow> 'e
   \<Rightarrow> (exception + unit) \<times> statement \<times> 'e" where
  "statement_execute_policy E this policy args e =
     (case statement_reset E this e of
        (Inl ex, e1) \<Rightarrow> (Inl ex, this, e1)
      | (Inr _, e1) \<Rightarrow>
          (case statement_bind E this 1 policy args e1 of
             (Inl ex, e2) \<Rightarrow> (Inl ex, this, e2)
           | (Inr _, e2) \<Rightarrow> statement_step E this e2))"

definition statement_execute ::
  "'e engine \<Rightarrow> statement \<Rightarrow> cval list \<Rightarrow> 'e \<Rightarrow> (exception + unit) \<times> statement \<times> 'e" where
  "statement_execute E this args e = statement_execute_policy E this TRANSIENT args e"

text \<open>
  \<^verbatim>\<open>fetch(args...)\<close> returns the \<^verbatim>\<open>bool\<close>, the object, the outputs and the engine state.
\<close>

definition statement_fetch ::
  "'e engine \<Rightarrow> statement \<Rightarrow> cval list \<Rightarrow> 'e
   \<Rightarrow> (exception + bool) \<times> statement \<times> cval list \<times> 'e" where
  "statement_fetch E this args e =
     (case (if \<not> can_fetch this then statement_step E this e else (Inr (), this, e)) of
        (Inl ex, this1, e1) \<Rightarrow> (Inl ex, this1, args, e1)
      | (Inr _, this1, e1) \<Rightarrow>
          if can_fetch this1
          then (Inr True, this1\<lparr>can_fetch := False\<rparr>, statement_column E this1 0 args e1, e1)
          else (Inr False, this1, args, e1))"

subsection \<open>db\<close>

record db =
  db_handle :: sqlite3_ptr

text \<open>
  The constructor closes the handle when \<^verbatim>\<open>sqlite3_open_v2\<close> fails and throws
  \<^verbatim>\<open>exception(_db)\<close>.
\<close>

definition db_ctor :: "'e engine \<Rightarrow> string \<Rightarrow> int \<Rightarrow> 'e \<Rightarrow> (exception + db) \<times> 'e" where
  "db_ctor E filename flags e =
     (case sqlite3_open_v2 E filename flags e of
        ((res, p), e1) \<Rightarrow>
          if res \<noteq> SQLITE_OK
          then (let e2 = sqlite3_close_v2 E p e1 in (Inl (exception_db E p e2), e2))
          else (Inr \<lparr>db_handle = p\<rparr>, e1))"

definition db_move_ctor :: "db \<Rightarrow> db \<times> db" where
  "db_move_ctor another =
     (let this = \<lparr>db_handle = nullptr\<rparr>
      in (\<lparr>db_handle = db_handle another\<rparr>, \<lparr>db_handle = db_handle this\<rparr>))"

definition db_move_assign :: "db \<Rightarrow> db \<Rightarrow> db \<times> db" where
  "db_move_assign this another =
     (\<lparr>db_handle = db_handle another\<rparr>, \<lparr>db_handle = db_handle this\<rparr>)"

definition db_dtor :: "'e engine \<Rightarrow> db \<Rightarrow> 'e \<Rightarrow> 'e" where
  "db_dtor E this e =
     (if db_handle this \<noteq> nullptr then sqlite3_close_v2 E (db_handle this) e else e)"

definition db_prepare ::
  "'e engine \<Rightarrow> db \<Rightarrow> string \<Rightarrow> 'e \<Rightarrow> (exception + statement) \<times> 'e" where
  "db_prepare E this sql e = statement_ctor E (db_handle this) sql SQLITE_PREPARE_PERSISTENT e"

text \<open>
  \<^verbatim>\<open>execute(sql, args...)\<close> constructs the local \<^verbatim>\<open>statement s\<close>, runs \<^verbatim>\<open>s.execute(args...)\<close>
  and returns \<^verbatim>\<open>s\<close>. When \<^verbatim>\<open>s.execute\<close> throws, unwinding runs the destructor of \<^verbatim>\<open>s\<close>.
\<close>

definition db_execute ::
  "'e engine \<Rightarrow> db \<Rightarrow> string \<Rightarrow> cval list \<Rightarrow> 'e \<Rightarrow> (exception + statement) \<times> 'e" where
  "db_execute E this sql args e =
     (case statement_ctor E (db_handle this) sql 0 e of
        (Inl ex, e1) \<Rightarrow> (Inl ex, e1)
      | (Inr s, e1) \<Rightarrow>
          (case statement_execute E s args e1 of
             (Inl ex, s1, e2) \<Rightarrow> (Inl ex, statement_dtor E s1 e2)
           | (Inr _, s1, e2) \<Rightarrow> (Inr s1, e2)))"

text \<open>
  A call whose returned \<^verbatim>\<open>statement\<close> is discarded: the temporary is destroyed at the end
  of the full expression.
\<close>

definition db_execute_discard ::
  "'e engine \<Rightarrow> db \<Rightarrow> string \<Rightarrow> cval list \<Rightarrow> 'e \<Rightarrow> (exception + unit) \<times> 'e" where
  "db_execute_discard E this sql args e =
     (case db_execute E this sql args e of
        (Inl ex, e1) \<Rightarrow> (Inl ex, e1)
      | (Inr s, e1) \<Rightarrow> (Inr (), statement_dtor E s e1))"

definition sql_begin :: "transaction_type \<Rightarrow> string" where
  "sql_begin type =
     (case type of
        DEFERRED \<Rightarrow> ''BEGIN DEFERRED TRANSACTION''
      | IMMEDIATE \<Rightarrow> ''BEGIN IMMEDIATE TRANSACTION''
      | EXCLUSIVE \<Rightarrow> ''BEGIN EXCLUSIVE TRANSACTION'')"

definition sql_commit :: string where
  "sql_commit = ''COMMIT TRANSACTION''"

definition sql_rollback :: string where
  "sql_rollback = ''ROLLBACK TRANSACTION''"

definition db_begin ::
  "'e engine \<Rightarrow> db \<Rightarrow> transaction_type \<Rightarrow> 'e \<Rightarrow> (exception + unit) \<times> 'e" where
  "db_begin E this type e = db_execute_discard E this (sql_begin type) [] e"

definition db_commit :: "'e engine \<Rightarrow> db \<Rightarrow> 'e \<Rightarrow> (exception + unit) \<times> 'e" where
  "db_commit E this e = db_execute_discard E this sql_commit [] e"

definition db_rollback :: "'e engine \<Rightarrow> db \<Rightarrow> 'e \<Rightarrow> (exception + unit) \<times> 'e" where
  "db_rollback E this e = db_execute_discard E this sql_rollback [] e"

section \<open>migrations.h\<close>

text \<open>
  The SQL texts are the raw string literals of the source with their white space
  normalised.
\<close>

definition sql_create_version_info :: string where
  "sql_create_version_info =
     ''CREATE TABLE IF NOT EXISTS VersionInfo (Version INTEGER NOT NULL, AppliedOn DATETIME, Description TEXT)''"

definition sql_select_max_version :: string where
  "sql_select_max_version = ''SELECT MAX(Version) FROM VersionInfo''"

definition sql_insert_version_info :: string where
  "sql_insert_version_info =
     ''INSERT INTO VersionInfo(Version, AppliedOn) VALUES (?, datetime('' @ [CHR 0x27] @ ''now'' @ [CHR 0x27] @ ''))''"

definition create_version_info_table :: "'e engine \<Rightarrow> db \<Rightarrow> 'e \<Rightarrow> (exception + unit) \<times> 'e" where
  "create_version_info_table E db e = db_execute_discard E db sql_create_version_info [] e"

text \<open>
  \<^verbatim>\<open>get_last_applied_version\<close> returns the \<^verbatim>\<open>int last_version\<close>, initialised to 0 and passed
  to \<^verbatim>\<open>fetch\<close>, whose \<^verbatim>\<open>bool\<close> is ignored. The local \<^verbatim>\<open>statement\<close> is destroyed on return
  and on a throw of \<^verbatim>\<open>fetch\<close>.
\<close>

definition get_last_applied_version ::
  "'e engine \<Rightarrow> db \<Rightarrow> 'e \<Rightarrow> (exception + 32 word) \<times> 'e" where
  "get_last_applied_version E db e =
     (case db_execute E db sql_select_max_version [] e of
        (Inl ex, e1) \<Rightarrow> (Inl ex, e1)
      | (Inr statement, e1) \<Rightarrow>
          (case statement_fetch E statement [V_int32 0] e1 of
             (Inl ex, statement1, outs, e2) \<Rightarrow> (Inl ex, statement_dtor E statement1 e2)
           | (Inr _, statement1, outs, e2) \<Rightarrow>
               (case outs of \<comment> \<open>\<^verbatim>\<open>fetch\<close> returns the tags it was given: one \<^verbatim>\<open>int\<close>\<close>
                  [V_int32 last_version] \<Rightarrow> (Inr last_version, statement_dtor E statement1 e2)
                | _ \<Rightarrow> (Inr 0, statement_dtor E statement1 e2))))"

text \<open>
  The loop of \<^verbatim>\<open>apply_migrations\<close>: \<open>rest\<close> is what lies between the iterator \<^verbatim>\<open>it\<close> and
  \<^verbatim>\<open>migrations.end()\<close>, \<open>pos\<close> is \<^verbatim>\<open>std::distance(migrations.begin(), it)\<close>. The version
  bound is the \<^verbatim>\<open>ptrdiff_t\<close> \<open>pos + 1\<close>, a 64-bit integer.
\<close>

fun apply_loop ::
  "'e engine \<Rightarrow> db \<Rightarrow> string list \<Rightarrow> nat \<Rightarrow> 'e \<Rightarrow> (exception + unit) \<times> 'e" where
  "apply_loop E db [] pos e = (Inr (), e)"
| "apply_loop E db (m # rest) pos e =
     (case db_execute_discard E db m [] e of
        (Inl ex, e1) \<Rightarrow> (Inl ex, e1)
      | (Inr _, e1) \<Rightarrow>
          (case db_execute_discard E db sql_insert_version_info
                  [V_int64 (word_of_nat pos + 1)] e1 of
             (Inl ex, e2) \<Rightarrow> (Inl ex, e2)
           | (Inr _, e2) \<Rightarrow> apply_loop E db rest (pos + 1) e2))"

text \<open>
  \<^verbatim>\<open>migrations.size() > last_version\<close> compares a \<^verbatim>\<open>size_t\<close> with an \<^verbatim>\<open>int\<close>: the \<^verbatim>\<open>int\<close> is
  converted to the 64-bit unsigned type, so a negative \<^verbatim>\<open>last_version\<close> compares as a
  huge number. Inside the branch \<^verbatim>\<open>last_version\<close> is therefore between 0 and the size.
\<close>

definition apply_migrations ::
  "'e engine \<Rightarrow> db \<Rightarrow> string list \<Rightarrow> 'e \<Rightarrow> (exception + unit) \<times> 'e" where
  "apply_migrations E db migrations e =
     (case create_version_info_table E db e of
        (Inl ex, e1) \<Rightarrow> (Inl ex, e1)
      | (Inr _, e1) \<Rightarrow>
          (case get_last_applied_version E db e1 of
             (Inl ex, e2) \<Rightarrow> (Inl ex, e2)
           | (Inr last_version, e2) \<Rightarrow>
               if int (length migrations) > sint last_version mod 2 ^ 64
               then (case db_begin E db DEFERRED e2 of
                       (Inl ex, e3) \<Rightarrow> (Inl ex, e3)
                     | (Inr _, e3) \<Rightarrow>
                         (case apply_loop E db (drop (nat (sint last_version)) migrations)
                                 (nat (sint last_version)) e3 of
                            (Inl ex, e4) \<Rightarrow> (Inl ex, e4)
                          | (Inr _, e4) \<Rightarrow> db_commit E db e4))
               else (Inr (), e2)))"

section \<open>Observing the calls made to an engine\<close>

text \<open>
  \<open>traced E\<close> is the engine \<open>E\<close> with a log: every call that changes the engine is
  appended to the log and then passed on to \<open>E\<close>. It lets a statement about an arbitrary
  engine speak about the calls the wrapper makes.
\<close>

datatype call =
    Call_open string
  | Call_close sqlite3_ptr
  | Call_prepare sqlite3_ptr string
  | Call_finalize sqlite3_stmt_ptr
  | Call_reset sqlite3_stmt_ptr
  | Call_step sqlite3_stmt_ptr
  | Call_bind sqlite3_stmt_ptr nat

definition traced :: "'e engine \<Rightarrow> ('e \<times> call list) engine" where
  "traced E =
     \<lparr>sqlite3_open_v2 = (\<lambda>filename flags (e, log).
        (case sqlite3_open_v2 E filename flags e of (r, e1) \<Rightarrow> (r, (e1, log @ [Call_open filename])))),
      sqlite3_close_v2 = (\<lambda>db (e, log). (sqlite3_close_v2 E db e, log @ [Call_close db])),
      sqlite3_errmsg = (\<lambda>db (e, log). sqlite3_errmsg E db e),
      sqlite3_db_handle = (\<lambda>st (e, log). sqlite3_db_handle E st e),
      sqlite3_prepare_v3 = (\<lambda>db sql flags (e, log).
        (case sqlite3_prepare_v3 E db sql flags e of (r, e1) \<Rightarrow> (r, (e1, log @ [Call_prepare db sql])))),
      sqlite3_finalize = (\<lambda>st (e, log). (sqlite3_finalize E st e, log @ [Call_finalize st])),
      sqlite3_reset = (\<lambda>st (e, log).
        (case sqlite3_reset E st e of (r, e1) \<Rightarrow> (r, (e1, log @ [Call_reset st])))),
      sqlite3_step = (\<lambda>st (e, log).
        (case sqlite3_step E st e of (r, e1) \<Rightarrow> (r, (e1, log @ [Call_step st])))),
      sqlite3_bind_int = (\<lambda>st i v (e, log).
        (case sqlite3_bind_int E st i v e of (r, e1) \<Rightarrow> (r, (e1, log @ [Call_bind st i])))),
      sqlite3_bind_int64 = (\<lambda>st i v (e, log).
        (case sqlite3_bind_int64 E st i v e of (r, e1) \<Rightarrow> (r, (e1, log @ [Call_bind st i])))),
      sqlite3_bind_null = (\<lambda>st i (e, log).
        (case sqlite3_bind_null E st i e of (r, e1) \<Rightarrow> (r, (e1, log @ [Call_bind st i])))),
      sqlite3_column_int = (\<lambda>st c (e, log). sqlite3_column_int E st c e),
      sqlite3_column_int64 = (\<lambda>st c (e, log). sqlite3_column_int64 E st c e),
      sqlite3_column_type = (\<lambda>st c (e, log). sqlite3_column_type E st c e)\<rparr>"

fun prepared :: "call list \<Rightarrow> string list" where
  "prepared [] = []"
| "prepared (Call_prepare db sql # cs) = sql # prepared cs"
| "prepared (c # cs) = prepared cs"

fun closed :: "call list \<Rightarrow> sqlite3_ptr list" where
  "closed [] = []"
| "closed (Call_close db # cs) = db # closed cs"
| "closed (c # cs) = closed cs"

fun finalized :: "call list \<Rightarrow> sqlite3_stmt_ptr list" where
  "finalized [] = []"
| "finalized (Call_finalize st # cs) = st # finalized cs"
| "finalized (c # cs) = finalized cs"

section \<open>A reference engine\<close>

text \<open>
  Modelled from the spec: the engine behind the capability interface (open, close,
  prepare, finalize, reset, step, bind, column, error message) is an external library,
  absent from the repository. What the ledger holds after a run depends on what the
  engine does with the SQL it is given. The reference engine is a model of one sqlite3
  connection, restricted to the
  statements the wrapper and the runner issue: the three transaction statements, the
  three ledger statements, the one-parameter query \<^verbatim>\<open>SELECT ?\<close>, and migration bodies.
  A migration body is any other text; what it does is a parameter \<open>run\<close> of the model,
  acting on a schema of an arbitrary type \<open>'s\<close>: the body is rejected when it is compiled,
  aborts when it is stepped, or changes the schema.

  The model follows the documentation of the C API: a query without \<^verbatim>\<open>GROUP BY\<close> over an
  aggregate returns one row, \<^verbatim>\<open>MAX\<close> of no rows is NULL, \<^verbatim>\<open>sqlite3_column_int\<close> of NULL
  is 0, a statement stepped after \<^verbatim>\<open>SQLITE_DONE\<close> runs again, a failing statement changes
  nothing and leaves an open transaction open, changes made outside a transaction are
  durable at once, and closing a connection rolls an open transaction back.
\<close>

datatype sql_value = Sql_null | Sql_integer int

record ledger_row =
  Version :: int
  AppliedOn :: "nat option"
  Description :: "string option"

record 's database =
  VersionInfo :: "ledger_row list option"
  schema :: 's

datatype 's outcome = Rejected | Aborted | Applied 's

record vm =
  vm_sql :: string
  vm_params :: "sql_value list"
  vm_row :: "sql_value list option"

record 's sqlite =
  durable :: "'s database"
  visible :: "'s database"
  autocommit :: bool
  now :: nat
  vms :: "nat \<Rightarrow> vm option"
  next_vm :: nat
  errmsg :: string
  executed :: "string list"

datatype sql_kind =
  K_create | K_select_max | K_insert | K_begin | K_commit | K_rollback | K_echo | K_body

definition sql_echo :: string where
  "sql_echo = ''SELECT ?''"

definition classify :: "string \<Rightarrow> sql_kind" where
  "classify sql =
     (if sql = sql_create_version_info then K_create
      else if sql = sql_select_max_version then K_select_max
      else if sql = sql_insert_version_info then K_insert
      else if sql = sql_begin DEFERRED \<or> sql = sql_begin IMMEDIATE \<or> sql = sql_begin EXCLUSIVE
      then K_begin
      else if sql = sql_commit then K_commit
      else if sql = sql_rollback then K_rollback
      else if sql = sql_echo then K_echo
      else K_body)"

fun parameter_count :: "sql_kind \<Rightarrow> nat" where
  "parameter_count K_insert = 1"
| "parameter_count K_echo = 1"
| "parameter_count k = 0"

fun max_version :: "ledger_row list \<Rightarrow> sql_value" where
  "max_version [] = Sql_null"
| "max_version (r # rs) =
     (case max_version rs of
        Sql_null \<Rightarrow> Sql_integer (Version r)
      | Sql_integer v \<Rightarrow> Sql_integer (max (Version r) v))"

definition fail :: "int \<Rightarrow> string \<Rightarrow> 's sqlite \<Rightarrow> int \<times> 's sqlite" where
  "fail code msg e = (code, e\<lparr>errmsg := msg\<rparr>)"

definition ref_prepare ::
  "(string \<Rightarrow> 's \<Rightarrow> 's outcome) \<Rightarrow> sqlite3_ptr \<Rightarrow> string \<Rightarrow> nat \<Rightarrow> 's sqlite
   \<Rightarrow> (int \<times> sqlite3_stmt_ptr) \<times> 's sqlite" where
  "ref_prepare run db sql flags e =
     (let k = classify sql;
          ok = (case k of
                  K_select_max \<Rightarrow> VersionInfo (visible e) \<noteq> None
                | K_insert \<Rightarrow> VersionInfo (visible e) \<noteq> None
                | K_body \<Rightarrow> run sql (schema (visible e)) \<noteq> Rejected
                | _ \<Rightarrow> True)
      in if ok
         then ((SQLITE_OK, next_vm e),
               e\<lparr>vms := (vms e)(next_vm e \<mapsto>
                      \<lparr>vm_sql = sql, vm_params = replicate (parameter_count k) Sql_null,
                       vm_row = None\<rparr>),
                 next_vm := Suc (next_vm e)\<rparr>)
         else ((SQLITE_ERROR, nullptr), e\<lparr>errmsg := ''SQL logic error''\<rparr>))"

definition ref_finalize :: "sqlite3_stmt_ptr \<Rightarrow> 's sqlite \<Rightarrow> 's sqlite" where
  "ref_finalize st e = e\<lparr>vms := (vms e)(st := None)\<rparr>"

definition ref_reset :: "sqlite3_stmt_ptr \<Rightarrow> 's sqlite \<Rightarrow> int \<times> 's sqlite" where
  "ref_reset st e =
     (case vms e st of
        None \<Rightarrow> (SQLITE_OK, e)
      | Some v \<Rightarrow> (SQLITE_OK, e\<lparr>vms := (vms e)(st \<mapsto> v\<lparr>vm_row := None\<rparr>)\<rparr>))"

definition ref_bind :: "sqlite3_stmt_ptr \<Rightarrow> nat \<Rightarrow> sql_value \<Rightarrow> 's sqlite \<Rightarrow> int \<times> 's sqlite" where
  "ref_bind st i x e =
     (case vms e st of
        None \<Rightarrow> fail SQLITE_MISUSE ''bad parameter or other API misuse'' e
      | Some v \<Rightarrow>
          if 1 \<le> i \<and> i \<le> length (vm_params v)
          then (SQLITE_OK, e\<lparr>vms := (vms e)(st \<mapsto> v\<lparr>vm_params := (vm_params v)[i - 1 := x]\<rparr>)\<rparr>)
          else fail SQLITE_RANGE ''column index out of range'' e)"

text \<open>The effect of a statement that ran; outside a transaction it is durable at once.\<close>

definition ran :: "string \<Rightarrow> 's database \<Rightarrow> 's sqlite \<Rightarrow> int \<times> 's sqlite" where
  "ran sql d e =
     (SQLITE_DONE,
      e\<lparr>visible := d, durable := (if autocommit e then d else durable e),
        executed := executed e @ [sql]\<rparr>)"

definition row :: "sqlite3_stmt_ptr \<Rightarrow> vm \<Rightarrow> sql_value list \<Rightarrow> 's sqlite \<Rightarrow> int \<times> 's sqlite" where
  "row st v r e =
     (SQLITE_ROW,
      e\<lparr>vms := (vms e)(st \<mapsto> v\<lparr>vm_row := Some r\<rparr>), executed := executed e @ [vm_sql v]\<rparr>)"

definition ref_step ::
  "(string \<Rightarrow> 's \<Rightarrow> 's outcome) \<Rightarrow> sqlite3_stmt_ptr \<Rightarrow> 's sqlite \<Rightarrow> int \<times> 's sqlite" where
  "ref_step run st e =
     (case vms e st of
        None \<Rightarrow> fail SQLITE_MISUSE ''bad parameter or other API misuse'' e
      | Some v \<Rightarrow>
          if vm_row v \<noteq> None
          then (SQLITE_DONE, e\<lparr>vms := (vms e)(st \<mapsto> v\<lparr>vm_row := None\<rparr>)\<rparr>)
          else
            (case classify (vm_sql v) of
               K_create \<Rightarrow>
                 (case VersionInfo (visible e) of
                    None \<Rightarrow> ran (vm_sql v) ((visible e)\<lparr>VersionInfo := Some []\<rparr>) e
                  | Some rows \<Rightarrow> ran (vm_sql v) (visible e) e)
             | K_select_max \<Rightarrow>
                 (case VersionInfo (visible e) of
                    None \<Rightarrow> fail SQLITE_ERROR ''no such table: VersionInfo'' e
                  | Some rows \<Rightarrow> row st v [max_version rows] e)
             | K_insert \<Rightarrow>
                 (case VersionInfo (visible e) of
                    None \<Rightarrow> fail SQLITE_ERROR ''no such table: VersionInfo'' e
                  | Some rows \<Rightarrow>
                      (case vm_params v of
                         [Sql_integer n] \<Rightarrow>
                           ran (vm_sql v)
                             ((visible e)\<lparr>VersionInfo :=
                                Some (rows @ [\<lparr>Version = n, AppliedOn = Some (now e),
                                               Description = None\<rparr>])\<rparr>) e
                       | _ \<Rightarrow> fail SQLITE_CONSTRAINT
                               ''NOT NULL constraint failed: VersionInfo.Version'' e))
             | K_begin \<Rightarrow>
                 if autocommit e
                 then (SQLITE_DONE, e\<lparr>autocommit := False, executed := executed e @ [vm_sql v]\<rparr>)
                 else fail SQLITE_ERROR ''cannot start a transaction within a transaction'' e
             | K_commit \<Rightarrow>
                 if autocommit e
                 then fail SQLITE_ERROR ''cannot commit - no transaction is active'' e
                 else (SQLITE_DONE,
                       e\<lparr>durable := visible e, autocommit := True,
                         executed := executed e @ [vm_sql v]\<rparr>)
             | K_rollback \<Rightarrow>
                 if autocommit e
                 then fail SQLITE_ERROR ''cannot rollback - no transaction is active'' e
                 else (SQLITE_DONE,
                       e\<lparr>visible := durable e, autocommit := True,
                         executed := executed e @ [vm_sql v]\<rparr>)
             | K_echo \<Rightarrow> row st v (vm_params v) e
             | K_body \<Rightarrow>
                 (case run (vm_sql v) (schema (visible e)) of
                    Applied s \<Rightarrow> ran (vm_sql v) ((visible e)\<lparr>schema := s\<rparr>) e
                  | _ \<Rightarrow> fail SQLITE_ERROR ''SQL logic error'' e)))"

definition column_value :: "sqlite3_stmt_ptr \<Rightarrow> nat \<Rightarrow> 's sqlite \<Rightarrow> sql_value" where
  "column_value st c e =
     (case vms e st of
        None \<Rightarrow> Sql_null
      | Some v \<Rightarrow>
          (case vm_row v of
             None \<Rightarrow> Sql_null
           | Some r \<Rightarrow> if c < length r then r ! c else Sql_null))"

definition ref_close :: "sqlite3_ptr \<Rightarrow> 's sqlite \<Rightarrow> 's sqlite" where
  "ref_close db e = e\<lparr>visible := durable e, autocommit := True\<rparr>"

definition reference :: "(string \<Rightarrow> 's \<Rightarrow> 's outcome) \<Rightarrow> 's sqlite engine" where
  "reference run =
     \<lparr>sqlite3_open_v2 = (\<lambda>filename flags e. ((SQLITE_OK, 1), e)),
      sqlite3_close_v2 = ref_close,
      sqlite3_errmsg = (\<lambda>db e. errmsg e),
      sqlite3_db_handle = (\<lambda>st e. 1),
      sqlite3_prepare_v3 = ref_prepare run,
      sqlite3_finalize = ref_finalize,
      sqlite3_reset = ref_reset,
      sqlite3_step = ref_step run,
      sqlite3_bind_int = (\<lambda>st i x. ref_bind st i (Sql_integer (sint x))),
      sqlite3_bind_int64 = (\<lambda>st i x. ref_bind st i (Sql_integer (sint x))),
      sqlite3_bind_null = (\<lambda>st i. ref_bind st i Sql_null),
      sqlite3_column_int = (\<lambda>st c e.
        (case column_value st c e of Sql_null \<Rightarrow> 0 | Sql_integer n \<Rightarrow> word_of_int n)),
      sqlite3_column_int64 = (\<lambda>st c e.
        (case column_value st c e of Sql_null \<Rightarrow> 0 | Sql_integer n \<Rightarrow> word_of_int n)),
      sqlite3_column_type = (\<lambda>st c e.
        (case column_value st c e of Sql_null \<Rightarrow> SQLITE_NULL | Sql_integer n \<Rightarrow> SQLITE_INTEGER))\<rparr>"

text \<open>A connection to a database file that does not exist yet.\<close>

definition fresh :: "'s \<Rightarrow> nat \<Rightarrow> 's sqlite" where
  "fresh s t =
     \<lparr>durable = \<lparr>VersionInfo = None, schema = s\<rparr>,
      visible = \<lparr>VersionInfo = None, schema = s\<rparr>,
      autocommit = True, now = t, vms = (\<lambda>st. None), next_vm = 1,
      errmsg = ''not an error'', executed = []\<rparr>"

section \<open>What a run of the migrations should leave behind\<close>

text \<open>
  The notions the properties of the runner are stated with: the ledger rows of a
  connection, the version they record, the schema after a list of bodies ran in order,
  the ledger rows of the positions \<open>pos + 1\<close> to \<open>pos + n\<close>, and the statements a run
  issues for a list of bodies. A connection is well formed when the address of the next
  statement is not \<open>nullptr\<close> and no statement lives at or beyond it.
\<close>

definition wf :: "'s sqlite \<Rightarrow> bool" where
  "wf e \<longleftrightarrow> next_vm e \<noteq> 0 \<and> (\<forall>p\<ge>next_vm e. vms e p = None)"

definition ledger :: "'s sqlite \<Rightarrow> ledger_row list" where
  "ledger e = (case VersionInfo (visible e) of None \<Rightarrow> [] | Some rows \<Rightarrow> rows)"

definition current_version :: "ledger_row list \<Rightarrow> int" where
  "current_version rows = (case max_version rows of Sql_null \<Rightarrow> 0 | Sql_integer n \<Rightarrow> n)"

fun run_all :: "(string \<Rightarrow> 's \<Rightarrow> 's outcome) \<Rightarrow> string list \<Rightarrow> 's \<Rightarrow> 's option" where
  "run_all run [] s = Some s"
| "run_all run (m # ms) s = (case run m s of Applied s' \<Rightarrow> run_all run ms s' | _ \<Rightarrow> None)"

definition ledger_rows :: "nat \<Rightarrow> nat \<Rightarrow> nat \<Rightarrow> ledger_row list" where
  "ledger_rows t pos n =
     map (\<lambda>i. \<lparr>Version = int i, AppliedOn = Some t, Description = None\<rparr>) [Suc pos ..< Suc (pos + n)]"

definition statements :: "string list \<Rightarrow> string list" where
  "statements ms = concat (map (\<lambda>m. [m, sql_insert_version_info]) ms)"

section \<open>Lifetimes of move-only objects\<close>

text \<open>
  A program that holds \<^verbatim>\<open>db\<close> (or \<^verbatim>\<open>statement\<close>) objects can move-construct a new object
  from a live one, move-assign one live object to another, and destroy a live object.
  \<open>lifetime\<close> runs a list of such operations over the live objects, named by numbers, and
  the engine; it is \<open>None\<close> when an operation names an object that is not live (or
  constructs one that is). It takes the special member functions of the class as
  parameters, so that it serves both classes.

  \<open>held h objs\<close> are the handles the live objects hold; \<open>exclusive\<close> says that no two live
  objects hold the same handle, that no held handle has been released, and that no
  handle has been released twice.
\<close>

datatype lifetime_op = Move_construct nat nat | Move_assign nat nat | Destroy nat

fun lifetime_step ::
  "('o \<Rightarrow> 'o \<times> 'o) \<Rightarrow> ('o \<Rightarrow> 'o \<Rightarrow> 'o \<times> 'o) \<Rightarrow> ('o \<Rightarrow> 'e \<Rightarrow> 'e) \<Rightarrow> lifetime_op
   \<Rightarrow> (nat \<rightharpoonup> 'o) \<times> 'e \<Rightarrow> ((nat \<rightharpoonup> 'o) \<times> 'e) option" where
  "lifetime_step move_ctor move_assign dtor (Move_construct new another) (objs, e) =
     (case (objs new, objs another) of
        (None, Some a) \<Rightarrow>
          (case move_ctor a of (this1, another1) \<Rightarrow> Some (objs(another \<mapsto> another1, new \<mapsto> this1), e))
      | _ \<Rightarrow> None)"
| "lifetime_step move_ctor move_assign dtor (Move_assign this another) (objs, e) =
     (case (objs this, objs another) of
        (Some t, Some a) \<Rightarrow>
          (case move_assign t a of (this1, another1) \<Rightarrow> Some (objs(another \<mapsto> another1, this \<mapsto> this1), e))
      | _ \<Rightarrow> None)"
| "lifetime_step move_ctor move_assign dtor (Destroy x) (objs, e) =
     (case objs x of
        Some t \<Rightarrow> Some (objs(x := None), dtor t e)
      | None \<Rightarrow> None)"

fun lifetime ::
  "('o \<Rightarrow> 'o \<times> 'o) \<Rightarrow> ('o \<Rightarrow> 'o \<Rightarrow> 'o \<times> 'o) \<Rightarrow> ('o \<Rightarrow> 'e \<Rightarrow> 'e) \<Rightarrow> lifetime_op list
   \<Rightarrow> (nat \<rightharpoonup> 'o) \<times> 'e \<Rightarrow> ((nat \<rightharpoonup> 'o) \<times> 'e) option" where
  "lifetime move_ctor move_assign dtor [] s = Some s"
| "lifetime move_ctor move_assign dtor (op # ops) s =
     (case lifetime_step move_ctor move_assign dtor op s of
        None \<Rightarrow> None
      | Some s1 \<Rightarrow> lifetime move_ctor move_assign dtor ops s1)"

definition held :: "('o \<Rightarrow> nat) \<Rightarrow> (nat \<rightharpoonup> 'o) \<Rightarrow> nat set" where
  "held h objs = {p. p \<noteq> nullptr \<and> (\<exists>x a. objs x = Some a \<and> h a = p)}"

definition exclusive :: "('o \<Rightarrow> nat) \<Rightarrow> (nat \<rightharpoonup> 'o) \<Rightarrow> nat list \<Rightarrow> bool" where
  "exclusive h objs released \<longleftrightarrow>
     (\<forall>x y a b. objs x = Some a \<and> objs y = Some b \<and> x \<noteq> y \<and> h a \<noteq> nullptr \<longrightarrow> h a \<noteq> h b)
     \<and> held h objs \<inter> set released = {}
     \<and> distinct released"

section \<open>Concrete inputs\<close>

text \<open>
  Inputs at which the theorems below are evaluated: a body semantics that rejects one text
  when it is compiled, aborts another when it is stepped and otherwise appends the body to
  a schema that is the list of the bodies applied; a connection; the connection of a new
  database after the ledger table was created; the statements returned by
  \<^verbatim>\<open>db.execute\<close> for the table creation and for the version query, each with the state it
  leaves, and the latter after its row was fetched and after the fetch that found no more
  rows; the statement returned for \<^verbatim>\<open>BEGIN\<close>; a prepared statement whose step aborts; an engine whose reset fails; a
  statement standing on a row that holds the integer 3; two connections and two
  statements with a list of moves and destructions; lists of migration bodies, one of
  them with a body that is rejected; and the connection of a database to which three
  migrations have been applied.
\<close>

definition example_run :: "string \<Rightarrow> string list \<Rightarrow> string list outcome" where
  "example_run sql s =
     (if sql = ''bogus'' then Rejected
      else if sql = ''INSERT INTO missing VALUES (1)'' then Aborted
      else Applied (s @ [sql]))"

definition example_db :: db where
  "example_db = \<lparr>db_handle = 1\<rparr>"

definition with_ledger :: "string list sqlite" where
  "with_ledger = snd (create_version_info_table (reference example_run) example_db (fresh [] 0))"

definition after_create :: "statement \<times> string list sqlite" where
  "after_create =
     (projr (fst (db_execute (reference example_run) example_db sql_create_version_info []
                    (fresh [] 0))),
      snd (db_execute (reference example_run) example_db sql_create_version_info [] (fresh [] 0)))"

definition after_select :: "statement \<times> string list sqlite" where
  "after_select =
     (projr (fst (db_execute (reference example_run) example_db sql_select_max_version []
                    with_ledger)),
      snd (db_execute (reference example_run) example_db sql_select_max_version [] with_ledger))"

definition after_fetch :: "statement \<times> string list sqlite" where
  "after_fetch =
     (fst (snd (statement_fetch (reference example_run) (fst after_select) [V_int32 7]
                  (snd after_select))),
      snd (snd (snd (statement_fetch (reference example_run) (fst after_select) [V_int32 7]
                       (snd after_select)))))"

definition after_done :: "statement \<times> string list sqlite" where
  "after_done =
     (fst (snd (statement_fetch (reference example_run) (fst after_fetch) [V_int32 7]
                  (snd after_fetch))),
      snd (snd (snd (statement_fetch (reference example_run) (fst after_fetch) [V_int32 7]
                       (snd after_fetch)))))"

definition after_begin :: "statement \<times> string list sqlite" where
  "after_begin =
     (projr (fst (db_execute (reference example_run) example_db (sql_begin DEFERRED) []
                    with_ledger)),
      snd (db_execute (reference example_run) example_db (sql_begin DEFERRED) [] with_ledger))"

definition aborting :: "statement \<times> string list sqlite" where
  "aborting =
     (projr (fst (db_prepare (reference example_run) example_db ''INSERT INTO missing VALUES (1)''
                    with_ledger)),
      snd (db_prepare (reference example_run) example_db ''INSERT INTO missing VALUES (1)''
             with_ledger))"

definition failing_reset :: "string list sqlite engine" where
  "failing_reset = (reference example_run)\<lparr>sqlite3_reset := (\<lambda>st e. (SQLITE_MISUSE, e))\<rparr>"

definition with_version :: "statement \<times> string list sqlite" where
  "with_version =
     (\<lparr>can_fetch = True, stmt_handle = 2\<rparr>,
      (fresh [] 0)\<lparr>vms := (\<lambda>st. None)(2 \<mapsto> \<lparr>vm_sql = sql_select_max_version, vm_params = [],
                                               vm_row = Some [Sql_integer 3]\<rparr>),
                   next_vm := 3\<rparr>)"

definition two_dbs :: "nat \<rightharpoonup> db" where
  "two_dbs = [0 \<mapsto> \<lparr>db_handle = 1\<rparr>, 1 \<mapsto> \<lparr>db_handle = 2\<rparr>]"

definition moves :: "lifetime_op list" where
  "moves = [Move_construct 2 0, Move_assign 2 1, Destroy 0, Destroy 1, Destroy 2]"

definition two_statements :: "nat \<rightharpoonup> statement" where
  "two_statements = [0 \<mapsto> \<lparr>can_fetch = True, stmt_handle = 1\<rparr>,
                     1 \<mapsto> \<lparr>can_fetch = False, stmt_handle = 2\<rparr>]"

definition three_migrations :: "string list" where
  "three_migrations = [''CREATE TABLE a (x)'', ''CREATE TABLE b (y)'', ''CREATE TABLE c (z)'']"

definition four_migrations :: "string list" where
  "four_migrations = three_migrations @ [''CREATE TABLE d (w)'']"

definition broken_migrations :: "string list" where
  "broken_migrations = [''CREATE TABLE a (x)'', ''bogus'', ''CREATE TABLE c (z)'']"

definition migrated :: "string list sqlite" where
  "migrated =
     (fresh [] 0)\<lparr>visible := \<lparr>VersionInfo = Some (ledger_rows 0 0 3), schema = three_migrations\<rparr>,
                  durable := \<lparr>VersionInfo = Some (ledger_rows 0 0 3), schema = three_migrations\<rparr>\<rparr>"

section \<open>The reference engine, statement by statement\<close>

lemmas wrapper_defs =
  exception_db_def exception_statement_def statement_ctor_def statement_dtor_def
  statement_reset_def statement_step_def statement_execute_policy_def statement_execute_def
  statement_fetch_def db_execute_def db_execute_discard_def db_begin_def db_commit_def
  db_rollback_def create_version_info_table_def get_last_applied_version_def

lemmas sql_defs =
  sql_create_version_info_def sql_select_max_version_def sql_insert_version_info_def
  sql_begin_def sql_commit_def sql_rollback_def sql_echo_def

lemmas reference_defs =
  reference_def ref_prepare_def ref_finalize_def ref_reset_def ref_bind_def ref_step_def
  ran_def row_def fail_def column_value_def ref_close_def

lemma classify_simps:
  "classify sql_create_version_info = K_create"
  "classify sql_select_max_version = K_select_max"
  "classify sql_insert_version_info = K_insert"
  "classify (sql_begin t) = K_begin"
  "classify sql_commit = K_commit"
  "classify sql_rollback = K_rollback"
  "classify sql_echo = K_echo"
  by (cases t; simp add: classify_def sql_defs)+

lemma wf_fresh_vm [simp]: "wf e \<Longrightarrow> (vms e)(next_vm e := None) = vms e"
  by (auto simp: wf_def)

lemma wf_next_vm [simp]: "wf e \<Longrightarrow> 0 < next_vm e"
  by (simp add: wf_def)

lemma wf_update [simp]:
  "wf (e\<lparr>visible := v\<rparr>) = wf e"
  "wf (e\<lparr>durable := u\<rparr>) = wf e"
  "wf (e\<lparr>autocommit := a\<rparr>) = wf e"
  "wf (e\<lparr>executed := x\<rparr>) = wf e"
  "wf (e\<lparr>errmsg := msg\<rparr>) = wf e"
  by (simp_all add: wf_def)

lemma wf_Suc [simp]: "wf e \<Longrightarrow> wf (e\<lparr>next_vm := Suc (next_vm e)\<rparr>)"
  by (simp add: wf_def)

lemma wf_fresh [simp]: "wf (fresh s t)"
  by (simp add: wf_def fresh_def)

lemma exec_body:
  assumes "wf e" "classify m = K_body" "run m (schema (visible e)) = Applied s"
  shows "db_execute_discard (reference run) d m [] e =
    (Inr (), e\<lparr>visible := (visible e)\<lparr>schema := s\<rparr>,
              durable := (if autocommit e then (visible e)\<lparr>schema := s\<rparr> else durable e),
              executed := executed e @ [m], next_vm := Suc (next_vm e)\<rparr>)"
  using assms
  by (simp add: wrapper_defs reference_defs)

lemma exec_body_fails:
  assumes "wf e" "classify m = K_body" "\<forall>s. run m (schema (visible e)) \<noteq> Applied s"
  shows "db_execute_discard (reference run) d m [] e =
    (Inl (Exception ''SQL logic error''),
     e\<lparr>errmsg := ''SQL logic error'',
       next_vm := (if run m (schema (visible e)) = Rejected then next_vm e else Suc (next_vm e))\<rparr>)"
  using assms
  by (cases "run m (schema (visible e))") (simp_all add: wrapper_defs reference_defs)

lemma exec_insert:
  assumes "wf e" "VersionInfo (visible e) = Some rows"
  shows "db_execute_discard (reference run) d sql_insert_version_info [V_int64 w] e =
    (Inr (), e\<lparr>visible := (visible e)\<lparr>VersionInfo :=
                  Some (rows @ [\<lparr>Version = sint w, AppliedOn = Some (now e), Description = None\<rparr>])\<rparr>,
              durable := (if autocommit e
                 then (visible e)\<lparr>VersionInfo :=
                  Some (rows @ [\<lparr>Version = sint w, AppliedOn = Some (now e), Description = None\<rparr>])\<rparr>
                 else durable e),
              executed := executed e @ [sql_insert_version_info], next_vm := Suc (next_vm e)\<rparr>)"
  using assms
  by (simp add: wrapper_defs reference_defs classify_simps optional_bind_def)

lemma exec_create:
  assumes "wf e"
  shows "create_version_info_table (reference run) d e =
    (Inr (), e\<lparr>visible := (visible e)\<lparr>VersionInfo :=
                  Some (case VersionInfo (visible e) of None \<Rightarrow> [] | Some rows \<Rightarrow> rows)\<rparr>,
              durable := (if autocommit e
                 then (visible e)\<lparr>VersionInfo :=
                  Some (case VersionInfo (visible e) of None \<Rightarrow> [] | Some rows \<Rightarrow> rows)\<rparr>
                 else durable e),
              executed := executed e @ [sql_create_version_info], next_vm := Suc (next_vm e)\<rparr>)"
  using assms
  by (cases "VersionInfo (visible e)") (simp_all add: wrapper_defs reference_defs classify_simps)

lemma exec_begin:
  assumes "wf e" "autocommit e"
  shows "db_begin (reference run) d t e =
    (Inr (), e\<lparr>autocommit := False,
              executed := executed e @ [sql_begin t], next_vm := Suc (next_vm e)\<rparr>)"
  using assms
  by (simp add: wrapper_defs reference_defs classify_simps)

lemma exec_commit:
  assumes "wf e" "\<not> autocommit e"
  shows "db_commit (reference run) d e =
    (Inr (), e\<lparr>durable := visible e, autocommit := True,
              executed := executed e @ [sql_commit], next_vm := Suc (next_vm e)\<rparr>)"
  using assms
  by (simp add: wrapper_defs reference_defs classify_simps)

lemma exec_rollback:
  assumes "wf e" "\<not> autocommit e"
  shows "db_rollback (reference run) d e =
    (Inr (), e\<lparr>visible := durable e, autocommit := True,
              executed := executed e @ [sql_rollback], next_vm := Suc (next_vm e)\<rparr>)"
  using assms
  by (simp add: wrapper_defs reference_defs classify_simps)

lemma exec_select:
  assumes "wf e" "VersionInfo (visible e) = Some rows"
  shows "get_last_applied_version (reference run) d e =
    (Inr (word_of_int (current_version rows)),
     e\<lparr>executed := executed e @ [sql_select_max_version], next_vm := Suc (next_vm e)\<rparr>)"
  using assms
  by (cases "max_version rows")
     (simp_all add: wrapper_defs reference_defs classify_simps current_version_def)


lemma ledger_rows_0 [simp]: "ledger_rows t pos 0 = []"
  by (simp add: ledger_rows_def)

lemma ledger_rows_Suc:
  "ledger_rows t pos (Suc n) =
     \<lparr>Version = int pos + 1, AppliedOn = Some t, Description = None\<rparr> # ledger_rows t (Suc pos) n"
  by (simp add: ledger_rows_def upt_conv_Cons del: upt_Suc)

lemma sint_word_of_int_64:
  "- (2 ^ 63) \<le> k \<Longrightarrow> k < 2 ^ 63 \<Longrightarrow> sint (word_of_int k :: 64 word) = k"
  by (simp add: signed_of_int signed_take_bit_int_eq_self)

lemma sint_word_of_int_32:
  "- (2 ^ 31) \<le> k \<Longrightarrow> k < 2 ^ 31 \<Longrightarrow> sint (word_of_int k :: 32 word) = k"
  by (simp add: signed_of_int signed_take_bit_int_eq_self)

lemma sint_position:
  assumes "pos + 1 < 2 ^ 63"
  shows "sint (word_of_nat pos + 1 :: 64 word) = int pos + 1"
proof -
  have "int (pos + 1) < int (2 ^ 63)"
    using assms by (simp only: of_nat_less_iff)
  then have "int pos + 1 < 2 ^ 63"
    by simp
  moreover have "(word_of_nat pos + 1 :: 64 word) = word_of_int (int pos + 1)"
    by simp
  ultimately show ?thesis
    by (simp only: sint_word_of_int_64)
qed

lemma loop_ok:
  assumes "wf e" "\<not> autocommit e" "VersionInfo (visible e) = Some rows"
    "\<forall>m\<in>set ms. classify m = K_body" "run_all run ms (schema (visible e)) = Some s"
    "pos + length ms < 2 ^ 63"
  shows "apply_loop (reference run) d ms pos e =
    (Inr (), e\<lparr>visible := (visible e)\<lparr>VersionInfo := Some (rows @ ledger_rows (now e) pos (length ms)),
                                     schema := s\<rparr>,
              executed := executed e @ statements ms,
              next_vm := next_vm e + 2 * length ms\<rparr>)"
  using assms
proof (induction ms arbitrary: e pos rows)
  case Nil
  then show ?case by (simp add: statements_def)
next
  case (Cons m ms)
  from Cons.prems obtain s1 where s1: "run m (schema (visible e)) = Applied s1"
    and rest: "run_all run ms s1 = Some s"
    by (auto split: outcome.splits)
  let ?e1 = "e\<lparr>visible := (visible e)\<lparr>schema := s1\<rparr>,
              executed := executed e @ [m], next_vm := Suc (next_vm e)\<rparr>"
  have b: "db_execute_discard (reference run) d m [] e = (Inr (), ?e1)"
    using Cons.prems s1 by (simp add: exec_body)
  have wf1: "wf ?e1"
    using Cons.prems(1) by (simp add: wf_def)
  let ?r = "\<lparr>Version = int pos + 1, AppliedOn = Some (now e), Description = None\<rparr>"
  let ?e2 = "?e1\<lparr>visible := (visible ?e1)\<lparr>VersionInfo := Some (rows @ [?r])\<rparr>,
              executed := executed ?e1 @ [sql_insert_version_info], next_vm := Suc (next_vm ?e1)\<rparr>"
  have i: "db_execute_discard (reference run) d sql_insert_version_info
             [V_int64 (word_of_nat pos + 1)] ?e1 = (Inr (), ?e2)"
    using Cons.prems wf1 by (subst exec_insert [where rows = rows]) (simp_all add: sint_position)
  have wf2: "wf ?e2"
    using Cons.prems(1) by (simp add: wf_def)
  have ih: "apply_loop (reference run) d ms (Suc pos) ?e2 =
    (Inr (), ?e2\<lparr>visible := (visible ?e2)\<lparr>VersionInfo :=
                   Some ((rows @ [?r]) @ ledger_rows (now ?e2) (Suc pos) (length ms)), schema := s\<rparr>,
              executed := executed ?e2 @ statements ms,
              next_vm := next_vm ?e2 + 2 * length ms\<rparr>)"
    using Cons.prems rest wf2 by (intro Cons.IH) simp_all
  show ?case
    using ih by (simp add: b i ledger_rows_Suc statements_def)
qed


lemma loop_fails:
  assumes "wf e" "\<not> autocommit e" "VersionInfo (visible e) = Some rows"
    "\<forall>m\<in>set pre. classify m = K_body" "classify bad = K_body"
    "run_all run pre (schema (visible e)) = Some s" "\<forall>s'. run bad s \<noteq> Applied s'"
    "pos + length pre < 2 ^ 63"
  shows "apply_loop (reference run) d (pre @ bad # post) pos e =
    (Inl (Exception ''SQL logic error''),
     e\<lparr>visible := (visible e)\<lparr>VersionInfo := Some (rows @ ledger_rows (now e) pos (length pre)),
                             schema := s\<rparr>,
       executed := executed e @ statements pre,
       errmsg := ''SQL logic error'',
       next_vm := next_vm e + 2 * length pre + (if run bad s = Rejected then 0 else 1)\<rparr>)"
  using assms
proof (induction pre arbitrary: e pos rows)
  case Nil
  then show ?case by (simp add: statements_def exec_body_fails)
next
  case (Cons m ms)
  from Cons.prems obtain s1 where s1: "run m (schema (visible e)) = Applied s1"
    and rest: "run_all run ms s1 = Some s"
    by (auto split: outcome.splits)
  let ?e1 = "e\<lparr>visible := (visible e)\<lparr>schema := s1\<rparr>,
              executed := executed e @ [m], next_vm := Suc (next_vm e)\<rparr>"
  have b: "db_execute_discard (reference run) d m [] e = (Inr (), ?e1)"
    using Cons.prems s1 by (simp add: exec_body)
  have wf1: "wf ?e1"
    using Cons.prems(1) by (simp add: wf_def)
  let ?r = "\<lparr>Version = int pos + 1, AppliedOn = Some (now e), Description = None\<rparr>"
  let ?e2 = "?e1\<lparr>visible := (visible ?e1)\<lparr>VersionInfo := Some (rows @ [?r])\<rparr>,
              executed := executed ?e1 @ [sql_insert_version_info], next_vm := Suc (next_vm ?e1)\<rparr>"
  have i: "db_execute_discard (reference run) d sql_insert_version_info
             [V_int64 (word_of_nat pos + 1)] ?e1 = (Inr (), ?e2)"
    using Cons.prems wf1 by (subst exec_insert [where rows = rows]) (simp_all add: sint_position)
  have wf2: "wf ?e2"
    using Cons.prems(1) by (simp add: wf_def)
  have ih: "apply_loop (reference run) d (ms @ bad # post) (Suc pos) ?e2 =
    (Inl (Exception ''SQL logic error''),
     ?e2\<lparr>visible := (visible ?e2)\<lparr>VersionInfo :=
                   Some ((rows @ [?r]) @ ledger_rows (now ?e2) (Suc pos) (length ms)), schema := s\<rparr>,
         executed := executed ?e2 @ statements ms,
         errmsg := ''SQL logic error'',
         next_vm := next_vm ?e2 + 2 * length ms + (if run bad s = Rejected then 0 else 1)\<rparr>)"
    using Cons.prems rest wf2 by (intro Cons.IH) simp_all
  show ?case
    using ih by (simp add: b i ledger_rows_Suc statements_def)
qed

lemma last_version:
  assumes "0 \<le> v" "v < 2 ^ 31"
  shows "sint (word_of_int v :: 32 word) = v"
  using assms by (simp add: sint_word_of_int_32)

lemma migrate_noop:
  assumes "wf e" "0 \<le> current_version (ledger e)" "current_version (ledger e) < 2 ^ 31"
    "int (length ms) \<le> current_version (ledger e)"
  shows "apply_migrations (reference run) d ms e =
    (Inr (),
     e\<lparr>visible := (visible e)\<lparr>VersionInfo := Some (ledger e)\<rparr>,
       durable := (if autocommit e then (visible e)\<lparr>VersionInfo := Some (ledger e)\<rparr> else durable e),
       executed := executed e @ [sql_create_version_info, sql_select_max_version],
       next_vm := next_vm e + 2\<rparr>)"
proof -
  let ?e1 = "e\<lparr>visible := (visible e)\<lparr>VersionInfo := Some (ledger e)\<rparr>,
       durable := (if autocommit e then (visible e)\<lparr>VersionInfo := Some (ledger e)\<rparr> else durable e),
       executed := executed e @ [sql_create_version_info], next_vm := Suc (next_vm e)\<rparr>"
  have c: "create_version_info_table (reference run) d e = (Inr (), ?e1)"
    using assms(1) by (simp add: exec_create ledger_def)
  have wf1: "wf ?e1"
    using assms(1) by (simp add: wf_def)
  have g: "get_last_applied_version (reference run) d ?e1 =
    (Inr (word_of_int (current_version (ledger e))),
     ?e1\<lparr>executed := executed ?e1 @ [sql_select_max_version], next_vm := Suc (next_vm ?e1)\<rparr>)"
    using wf1 by (intro exec_select) simp_all
  have m: "current_version (ledger e) mod 2 ^ 64 = current_version (ledger e)"
    using assms(2,3) by simp
  show ?thesis
    using assms(2-4) c g m by (simp add: apply_migrations_def last_version)
qed

lemma migrate_ok:
  assumes "wf e" "autocommit e" "0 \<le> current_version (ledger e)"
    "current_version (ledger e) < int (length ms)" "length ms < 2 ^ 31"
    "v = nat (current_version (ledger e))"
    "\<forall>m\<in>set (drop v ms). classify m = K_body"
    "run_all run (drop v ms) (schema (visible e)) = Some s"
  shows "apply_migrations (reference run) d ms e =
    (Inr (),
     e\<lparr>visible := (visible e)\<lparr>VersionInfo :=
                      Some (ledger e @ ledger_rows (now e) v (length ms - v)), schema := s\<rparr>,
       durable := (visible e)\<lparr>VersionInfo :=
                      Some (ledger e @ ledger_rows (now e) v (length ms - v)), schema := s\<rparr>,
       autocommit := True,
       executed := executed e @ [sql_create_version_info, sql_select_max_version, sql_begin DEFERRED]
                     @ statements (drop v ms) @ [sql_commit],
       next_vm := next_vm e + 2 * (length ms - v) + 4\<rparr>)"
proof -
  let ?e1 = "e\<lparr>visible := (visible e)\<lparr>VersionInfo := Some (ledger e)\<rparr>,
       durable := (visible e)\<lparr>VersionInfo := Some (ledger e)\<rparr>,
       executed := executed e @ [sql_create_version_info], next_vm := Suc (next_vm e)\<rparr>"
  have c: "create_version_info_table (reference run) d e = (Inr (), ?e1)"
    using assms(1,2) by (simp add: exec_create ledger_def)
  have wf1: "wf ?e1"
    using assms(1) by (simp add: wf_def)
  let ?e2 = "?e1\<lparr>executed := executed ?e1 @ [sql_select_max_version], next_vm := Suc (next_vm ?e1)\<rparr>"
  have g: "get_last_applied_version (reference run) d ?e1 =
    (Inr (word_of_int (current_version (ledger e))), ?e2)"
    using wf1 by (intro exec_select) simp_all
  have wf2: "wf ?e2"
    using assms(1) by (simp add: wf_def)
  let ?e3 = "?e2\<lparr>autocommit := False,
              executed := executed ?e2 @ [sql_begin DEFERRED], next_vm := Suc (next_vm ?e2)\<rparr>"
  have b: "db_begin (reference run) d DEFERRED ?e2 = (Inr (), ?e3)"
    using wf2 assms(2) by (intro exec_begin) simp_all
  have wf3: "wf ?e3"
    using assms(1) by (simp add: wf_def)
  have small: "v + length (drop v ms) < 2 ^ 63"
  proof -
    have "v + length (drop v ms) = length ms"
      using assms(3,4,6) by simp
    also have "\<dots> < 2 ^ 31" by (rule assms(5))
    also have "(2::nat) ^ 31 < 2 ^ 63" by simp
    finally show ?thesis .
  qed
  let ?e4 = "?e3\<lparr>visible := (visible ?e3)\<lparr>VersionInfo :=
                 Some (ledger e @ ledger_rows (now ?e3) v (length (drop v ms))), schema := s\<rparr>,
              executed := executed ?e3 @ statements (drop v ms),
              next_vm := next_vm ?e3 + 2 * length (drop v ms)\<rparr>"
  have l: "apply_loop (reference run) d (drop v ms) v ?e3 = (Inr (), ?e4)"
    using wf3 assms(7,8) small by (intro loop_ok) simp_all
  have wf4: "wf ?e4"
    using assms(1) by (simp add: wf_def)
  have k: "db_commit (reference run) d ?e4 =
    (Inr (), ?e4\<lparr>durable := visible ?e4, autocommit := True,
              executed := executed ?e4 @ [sql_commit], next_vm := Suc (next_vm ?e4)\<rparr>)"
    using wf4 by (intro exec_commit) simp_all
  have bound: "current_version (ledger e) < 2 ^ 31"
  proof -
    have "int (length ms) < int (2 ^ 31)"
      using assms(5) by (simp only: of_nat_less_iff)
    then show ?thesis using assms(4) by simp
  qed
  have m: "current_version (ledger e) mod 2 ^ 64 = current_version (ledger e)"
    using assms(3) bound by simp
  have lv: "sint (word_of_int (current_version (ledger e)) :: 32 word) = current_version (ledger e)"
    using assms(3) bound by (rule last_version)
  show ?thesis
    using assms(4) c g b l k lv m by (simp add: apply_migrations_def assms(6) [symmetric])
qed


section \<open>Runs of the migrations on the reference engine\<close>

lemma migrate_fails:
  assumes "wf e" "autocommit e" "0 \<le> current_version (ledger e)"
    "current_version (ledger e) < int (length ms)" "length ms < 2 ^ 31"
    "v = nat (current_version (ledger e))"
    "drop v ms = pre @ bad # post"
    "\<forall>m\<in>set pre. classify m = K_body" "classify bad = K_body"
    "run_all run pre (schema (visible e)) = Some s" "\<forall>s'. run bad s \<noteq> Applied s'"
  shows "apply_migrations (reference run) d ms e =
    (Inl (Exception ''SQL logic error''),
     e\<lparr>visible := (visible e)\<lparr>VersionInfo :=
                      Some (ledger e @ ledger_rows (now e) v (length pre)), schema := s\<rparr>,
       durable := (visible e)\<lparr>VersionInfo := Some (ledger e)\<rparr>,
       autocommit := False,
       executed := executed e @ [sql_create_version_info, sql_select_max_version, sql_begin DEFERRED]
                     @ statements pre,
       errmsg := ''SQL logic error'',
       next_vm := next_vm e + 2 * length pre + (if run bad s = Rejected then 3 else 4)\<rparr>)"
proof -
  let ?e1 = "e\<lparr>visible := (visible e)\<lparr>VersionInfo := Some (ledger e)\<rparr>,
       durable := (visible e)\<lparr>VersionInfo := Some (ledger e)\<rparr>,
       executed := executed e @ [sql_create_version_info], next_vm := Suc (next_vm e)\<rparr>"
  have c: "create_version_info_table (reference run) d e = (Inr (), ?e1)"
    using assms(1,2) by (simp add: exec_create ledger_def)
  have wf1: "wf ?e1"
    using assms(1) by (simp add: wf_def)
  let ?e2 = "?e1\<lparr>executed := executed ?e1 @ [sql_select_max_version], next_vm := Suc (next_vm ?e1)\<rparr>"
  have g: "get_last_applied_version (reference run) d ?e1 =
    (Inr (word_of_int (current_version (ledger e))), ?e2)"
    using wf1 by (intro exec_select) simp_all
  have wf2: "wf ?e2"
    using assms(1) by (simp add: wf_def)
  let ?e3 = "?e2\<lparr>autocommit := False,
              executed := executed ?e2 @ [sql_begin DEFERRED], next_vm := Suc (next_vm ?e2)\<rparr>"
  have b: "db_begin (reference run) d DEFERRED ?e2 = (Inr (), ?e3)"
    using wf2 assms(2) by (intro exec_begin) simp_all
  have wf3: "wf ?e3"
    using assms(1) by (simp add: wf_def)
  have small: "v + length pre < 2 ^ 63"
  proof -
    have "length (drop v ms) = length pre + Suc (length post)"
      using assms(7) by simp
    then have "v + length pre \<le> length ms"
      by simp
    also have "\<dots> < 2 ^ 31" by (rule assms(5))
    also have "(2::nat) ^ 31 < 2 ^ 63" by simp
    finally show ?thesis .
  qed
  have l: "apply_loop (reference run) d (pre @ bad # post) v ?e3 =
    (Inl (Exception ''SQL logic error''),
     ?e3\<lparr>visible := (visible ?e3)\<lparr>VersionInfo :=
                 Some (ledger e @ ledger_rows (now ?e3) v (length pre)), schema := s\<rparr>,
         executed := executed ?e3 @ statements pre,
         errmsg := ''SQL logic error'',
         next_vm := next_vm ?e3 + 2 * length pre + (if run bad s = Rejected then 0 else 1)\<rparr>)"
    using wf3 assms(8-11) small by (intro loop_fails) simp_all
  have bound: "current_version (ledger e) < 2 ^ 31"
  proof -
    have "int (length ms) < int (2 ^ 31)"
      using assms(5) by (simp only: of_nat_less_iff)
    then show ?thesis using assms(4) by simp
  qed
  have m: "current_version (ledger e) mod 2 ^ 64 = current_version (ledger e)"
    using assms(3) bound by simp
  have lv: "sint (word_of_int (current_version (ledger e)) :: 32 word) = current_version (ledger e)"
    using assms(3) bound by (rule last_version)
  show ?thesis
    using assms(4) c g b l lv m
    by (simp add: apply_migrations_def assms(6) [symmetric] assms(7))
qed

lemma max_version_snoc:
  "max_version (rows @ [r]) =
     (case max_version rows of
        Sql_null \<Rightarrow> Sql_integer (Version r)
      | Sql_integer n \<Rightarrow> Sql_integer (max n (Version r)))"
  by (induction rows) (auto split: sql_value.splits)

lemma ledger_rows_snoc:
  "ledger_rows t pos (Suc n) =
     ledger_rows t pos n @ [\<lparr>Version = int (pos + n) + 1, AppliedOn = Some t, Description = None\<rparr>]"
  by (simp add: ledger_rows_def)

lemma current_version_extended:
  assumes "current_version rows = int pos" "0 < n"
  shows "current_version (rows @ ledger_rows t pos n) = int (pos + n)"
  using assms(2)
proof (induction n)
  case 0
  then show ?case by simp
next
  case (Suc n)
  show ?case
  proof (cases "n = 0")
    case True
    then show ?thesis
      using assms(1)
      by (simp add: ledger_rows_snoc current_version_def max_version_snoc split: sql_value.splits)
  next
    case False
    then have "current_version (rows @ ledger_rows t pos n) = int (pos + n)"
      using Suc.IH by simp
    then show ?thesis
      by (simp add: ledger_rows_snoc current_version_def max_version_snoc
            append_assoc [symmetric] del: append_assoc split: sql_value.splits)
  qed
qed

lemma ledger_rows_versions: "map Version (ledger_rows t pos n) = map int [Suc pos ..< Suc (pos + n)]"
  by (simp add: ledger_rows_def)

lemma ledger_rows_timestamps: "r \<in> set (ledger_rows t pos n) \<Longrightarrow> AppliedOn r = Some t"
  by (auto simp: ledger_rows_def)

lemma ledger_fresh [simp]: "ledger (fresh s t) = []"
  by (simp add: ledger_def fresh_def)


section \<open>The statements a run compiles, on any engine\<close>

lemma prepared_append [simp]: "prepared (xs @ ys) = prepared xs @ prepared ys"
  by (induction xs rule: prepared.induct) simp_all

lemma traced_bind_prepared:
  "prepared (snd (snd (type_traits_bind (traced E) st i arg policy s))) = prepared (snd s)"
proof (induction arg arbitrary: s)
  case (V_int32 x)
  then show ?case by (simp add: traced_def split_beta)
next
  case (V_int64 x)
  then show ?case by (simp add: traced_def split_beta)
next
  case (V_optional t x)
  show ?case
  proof (cases x)
    case None
    then show ?thesis by (simp add: optional_bind_def) (simp add: traced_def split_beta)
  next
    case (Some v)
    then show ?thesis using V_optional by (simp add: optional_bind_def)
  qed
qed

lemma traced_statement_bind_prepared:
  "prepared (snd (snd (statement_bind (traced E) this i policy args s))) = prepared (snd s)"
proof (induction args arbitrary: i s)
  case Nil
  then show ?case by simp
next
  case (Cons a args)
  show ?case
    using Cons [of "Suc i" "snd (type_traits_bind (traced E) (stmt_handle this) i a policy s)"]
      traced_bind_prepared [of E "stmt_handle this" i a policy s]
    by (simp add: split_beta)
qed

lemma traced_reset_prepared:
  "prepared (snd (snd (statement_reset (traced E) this s))) = prepared (snd s)"
  by (simp add: statement_reset_def traced_def split_beta)

lemma traced_step_prepared:
  "prepared (snd (snd (snd (statement_step (traced E) this s)))) = prepared (snd s)"
  by (simp add: statement_step_def traced_def split_beta)

lemma traced_dtor_prepared:
  "prepared (snd (statement_dtor (traced E) this s)) = prepared (snd s)"
  by (simp add: statement_dtor_def traced_def split_beta)

lemma traced_execute_prepared:
  "prepared (snd (snd (snd (statement_execute (traced E) this args s)))) = prepared (snd s)"
  using traced_reset_prepared [of E this s]
    traced_statement_bind_prepared [of E this 1 TRANSIENT args "snd (statement_reset (traced E) this s)"]
    traced_step_prepared [of E this
      "snd (statement_bind (traced E) this 1 TRANSIENT args (snd (statement_reset (traced E) this s)))"]
  by (simp add: statement_execute_def statement_execute_policy_def split_beta split: sum.splits)

lemma traced_fetch_prepared:
  "prepared (snd (snd (snd (snd (statement_fetch (traced E) this args s))))) = prepared (snd s)"
  using traced_step_prepared [of E this s]
  by (simp add: statement_fetch_def split_beta split: sum.splits)

lemma traced_ctor_prepared:
  "prepared (snd (snd (statement_ctor (traced E) db sql flags s))) = prepared (snd s) @ [sql]"
  by (simp add: statement_ctor_def traced_def split_beta)

lemma traced_db_execute_prepared:
  "prepared (snd (snd (db_execute (traced E) d sql args s))) = prepared (snd s) @ [sql]"
  using traced_ctor_prepared [of E "db_handle d" sql 0 s]
    traced_execute_prepared [of E "projr (fst (statement_ctor (traced E) (db_handle d) sql 0 s))" args
      "snd (statement_ctor (traced E) (db_handle d) sql 0 s)"]
    traced_dtor_prepared [of E
      "fst (snd (statement_execute (traced E)
          (projr (fst (statement_ctor (traced E) (db_handle d) sql 0 s))) args
          (snd (statement_ctor (traced E) (db_handle d) sql 0 s))))"
      "snd (snd (statement_execute (traced E)
          (projr (fst (statement_ctor (traced E) (db_handle d) sql 0 s))) args
          (snd (statement_ctor (traced E) (db_handle d) sql 0 s))))"]
  by (auto simp: db_execute_def split_beta split: sum.splits)

lemma traced_discard_prepared:
  "prepared (snd (snd (db_execute_discard (traced E) d sql args s))) = prepared (snd s) @ [sql]"
  using traced_db_execute_prepared [of E d sql args s]
    traced_dtor_prepared [of E "projr (fst (db_execute (traced E) d sql args s))"
       "snd (db_execute (traced E) d sql args s)"]
  by (auto simp: db_execute_discard_def split_beta split: sum.splits)


lemma traced_version_prepared:
  "prepared (snd (snd (get_last_applied_version (traced E) d s)))
     = prepared (snd s) @ [sql_select_max_version]"
  using traced_db_execute_prepared [of E d sql_select_max_version "[]" s]
    traced_fetch_prepared [of E
      "projr (fst (db_execute (traced E) d sql_select_max_version [] s))" "[V_int32 0]"
      "snd (db_execute (traced E) d sql_select_max_version [] s)"]
  by (auto simp: get_last_applied_version_def split_beta traced_dtor_prepared
        split: sum.splits list.splits cval.splits)

lemma traced_loop_extends:
  "\<exists>new. prepared (snd (snd (apply_loop (traced E) d ms pos s))) = prepared (snd s) @ new
         \<and> set new \<subseteq> insert sql_insert_version_info (set ms)"
proof (induction ms arbitrary: pos s)
  case Nil
  then show ?case by simp
next
  case (Cons m ms)
  let ?s1 = "snd (db_execute_discard (traced E) d m [] s)"
  let ?s2 = "snd (db_execute_discard (traced E) d sql_insert_version_info
                    [V_int64 (word_of_nat pos + 1)] ?s1)"
  have 1: "prepared (snd ?s1) = prepared (snd s) @ [m]"
    by (rule traced_discard_prepared)
  have 2: "prepared (snd ?s2) = prepared (snd s) @ [m, sql_insert_version_info]"
    using 1 traced_discard_prepared [of E d sql_insert_version_info
      "[V_int64 (word_of_nat pos + 1)]" ?s1] by simp
  obtain new where 3: "prepared (snd (snd (apply_loop (traced E) d ms (pos + 1) ?s2)))
      = prepared (snd ?s2) @ new" and 4: "set new \<subseteq> insert sql_insert_version_info (set ms)"
    using Cons.IH by blast
  consider (body) "isl (fst (db_execute_discard (traced E) d m [] s))"
    | (insert) "\<not> isl (fst (db_execute_discard (traced E) d m [] s))"
        "isl (fst (db_execute_discard (traced E) d sql_insert_version_info
                    [V_int64 (word_of_nat pos + 1)] ?s1))"
    | (rest) "\<not> isl (fst (db_execute_discard (traced E) d m [] s))"
        "\<not> isl (fst (db_execute_discard (traced E) d sql_insert_version_info
                    [V_int64 (word_of_nat pos + 1)] ?s1))"
    by blast
  then show ?case
  proof cases
    case body
    then have "prepared (snd (snd (apply_loop (traced E) d (m # ms) pos s)))
        = prepared (snd s) @ [m]"
      using 1 by (auto simp: split_beta split: sum.splits)
    then show ?thesis by simp
  next
    case insert
    then have "prepared (snd (snd (apply_loop (traced E) d (m # ms) pos s)))
        = prepared (snd s) @ [m, sql_insert_version_info]"
      using 2 by (auto simp: split_beta split: sum.splits)
    then show ?thesis by simp
  next
    case rest
    then have "prepared (snd (snd (apply_loop (traced E) d (m # ms) pos s)))
        = prepared (snd s) @ ([m, sql_insert_version_info] @ new)"
      using 2 3 by (auto simp: split_beta split: sum.splits)
    moreover have "set ([m, sql_insert_version_info] @ new)
        \<subseteq> insert sql_insert_version_info (set (m # ms))"
      using 4 by auto
    ultimately show ?thesis by blast
  qed
qed


lemma traced_migrations_extends:
  assumes "sql_commit \<notin> set ms" and "sql_rollback \<notin> set ms"
  shows "\<exists>new. prepared (snd (snd (apply_migrations (traced E) d ms s))) = prepared (snd s) @ new
         \<and> sql_rollback \<notin> set new
         \<and> (sql_commit \<in> set new \<longrightarrow> last new = sql_commit)"
proof -
  let ?r1 = "create_version_info_table (traced E) d s"
  let ?s1 = "snd ?r1"
  let ?r2 = "get_last_applied_version (traced E) d ?s1"
  let ?s2 = "snd ?r2"
  let ?r3 = "db_begin (traced E) d DEFERRED ?s2"
  let ?s3 = "snd ?r3"
  let ?v = "nat (sint (projr (fst ?r2)))"
  let ?r4 = "apply_loop (traced E) d (drop ?v ms) ?v ?s3"
  let ?s4 = "snd ?r4"
  let ?r5 = "db_commit (traced E) d ?s4"
  let ?s5 = "snd ?r5"
  have 1: "prepared (snd ?s1) = prepared (snd s) @ [sql_create_version_info]"
    unfolding create_version_info_table_def by (rule traced_discard_prepared)
  have 2: "prepared (snd ?s2) = prepared (snd s) @ [sql_create_version_info, sql_select_max_version]"
    using 1 traced_version_prepared [of E d ?s1] by simp
  have 3: "prepared (snd ?s3) = prepared (snd s)
      @ [sql_create_version_info, sql_select_max_version, sql_begin DEFERRED]"
    using 2 traced_discard_prepared [of E d "sql_begin DEFERRED" "[]" ?s2]
    unfolding db_begin_def by simp
  obtain new where 4: "prepared (snd ?s4) = prepared (snd ?s3) @ new"
    and sub: "set new \<subseteq> insert sql_insert_version_info (set (drop ?v ms))"
    using traced_loop_extends [of E d "drop ?v ms" ?v ?s3] by blast
  have 5: "prepared (snd ?s5) = prepared (snd ?s4) @ [sql_commit]"
    unfolding db_commit_def by (rule traced_discard_prepared)
  have d: "set (drop ?v ms) \<subseteq> set ms"
    by (rule set_drop_subset)
  have own: "sql_commit \<noteq> sql_create_version_info" "sql_commit \<noteq> sql_select_max_version"
    "sql_commit \<noteq> sql_begin DEFERRED" "sql_commit \<noteq> sql_insert_version_info"
    "sql_rollback \<noteq> sql_create_version_info" "sql_rollback \<noteq> sql_select_max_version"
    "sql_rollback \<noteq> sql_begin DEFERRED" "sql_rollback \<noteq> sql_insert_version_info"
    "sql_rollback \<noteq> sql_commit"
    by (simp_all add: sql_defs)
  have new: "sql_commit \<notin> set new" "sql_rollback \<notin> set new"
  proof -
    have "set new \<subseteq> insert sql_insert_version_info (set ms)"
      using sub d by blast
    then show "sql_commit \<notin> set new" "sql_rollback \<notin> set new"
      using assms own(4,8) by blast+
  qed
  let ?P = "\<lambda>new. sql_rollback \<notin> set new \<and> (sql_commit \<in> set new \<longrightarrow> last new = sql_commit)"
  have p1: "?P [sql_create_version_info]"
    using own by simp
  have p2: "?P [sql_create_version_info, sql_select_max_version]"
    using own by simp
  have p3: "?P [sql_create_version_info, sql_select_max_version, sql_begin DEFERRED]"
    using own by simp
  have p4: "?P ([sql_create_version_info, sql_select_max_version, sql_begin DEFERRED] @ new)"
    using own new by simp
  have p5: "?P ([sql_create_version_info, sql_select_max_version, sql_begin DEFERRED] @ new
                  @ [sql_commit])"
    using own new by simp
  have "snd (apply_migrations (traced E) d ms s) = ?s1
      \<or> snd (apply_migrations (traced E) d ms s) = ?s2
      \<or> snd (apply_migrations (traced E) d ms s) = ?s3
      \<or> snd (apply_migrations (traced E) d ms s) = ?s4
      \<or> snd (apply_migrations (traced E) d ms s) = ?s5"
    by (auto simp: apply_migrations_def split_beta split: sum.splits)
  then consider (a) "snd (apply_migrations (traced E) d ms s) = ?s1"
    | (b) "snd (apply_migrations (traced E) d ms s) = ?s2"
    | (c) "snd (apply_migrations (traced E) d ms s) = ?s3"
    | (d) "snd (apply_migrations (traced E) d ms s) = ?s4"
    | (e) "snd (apply_migrations (traced E) d ms s) = ?s5"
    by blast
  then show ?thesis
  proof cases
    case a
    then show ?thesis using 1 p1 by (intro exI [of _ "[sql_create_version_info]"]) simp
  next
    case b
    then show ?thesis
      using 2 p2 by (intro exI [of _ "[sql_create_version_info, sql_select_max_version]"]) simp
  next
    case c
    then show ?thesis
      using 3 p3
      by (intro exI [of _ "[sql_create_version_info, sql_select_max_version, sql_begin DEFERRED]"])
         simp
  next
    case d
    then show ?thesis
      using 3 4 p4
      by (intro exI [of _ "[sql_create_version_info, sql_select_max_version, sql_begin DEFERRED]
                            @ new"])
         simp
  next
    case e
    then show ?thesis
      using 3 4 5 p5
      by (intro exI [of _ "[sql_create_version_info, sql_select_max_version, sql_begin DEFERRED]
                            @ new @ [sql_commit]"])
         simp
  qed
qed


section \<open>Exclusive ownership is kept by every operation\<close>

lemma held_iff: "p \<in> held h objs \<longleftrightarrow> p \<noteq> nullptr \<and> (\<exists>x a. objs x = Some a \<and> h a = p)"
  by (simp add: held_def)

lemma exchange_held:
  assumes a: "objs another = Some a"
    and ht: "ht = (case objs this of Some t \<Rightarrow> h t | None \<Rightarrow> nullptr)"
    and t1: "h t1 = h a" and a1: "h a1 = ht"
  shows "held h (objs(another \<mapsto> a1, this \<mapsto> t1)) = held h objs"
proof (intro set_eqI iffI)
  fix p
  assume "p \<in> held h (objs(another \<mapsto> a1, this \<mapsto> t1))"
  then obtain x v where p0: "p \<noteq> nullptr"
    and xv: "(objs(another \<mapsto> a1, this \<mapsto> t1)) x = Some v" and hv: "h v = p"
    by (auto simp: held_iff)
  consider "x = this" | "x \<noteq> this" "x = another" | "x \<noteq> this" "x \<noteq> another"
    by blast
  then show "p \<in> held h objs"
  proof cases
    case 1
    then have "v = t1" using xv by simp
    then have "h a = p" using t1 hv by simp
    then show ?thesis using a p0 held_iff by blast
  next
    case 2
    then have "v = a1" using xv by simp
    then have "ht = p" using a1 hv by simp
    then obtain t where "objs this = Some t" "h t = p"
      using ht p0 by (cases "objs this") auto
    then show ?thesis using p0 held_iff by blast
  next
    case 3
    then have "objs x = Some v" using xv by simp
    then show ?thesis using hv p0 held_iff by blast
  qed
next
  fix p
  assume "p \<in> held h objs"
  then obtain x v where p0: "p \<noteq> nullptr" and xv: "objs x = Some v" and hv: "h v = p"
    by (auto simp: held_iff)
  consider "x = another" | "x \<noteq> another" "x = this" | "x \<noteq> this" "x \<noteq> another"
    by blast
  then show "p \<in> held h (objs(another \<mapsto> a1, this \<mapsto> t1))"
  proof cases
    case 1
    then have "h t1 = p" using a xv hv t1 by simp
    moreover have "(objs(another \<mapsto> a1, this \<mapsto> t1)) this = Some t1" by simp
    ultimately show ?thesis using p0 held_iff by blast
  next
    case 2
    then have "ht = p" using ht xv hv by simp
    then have "h a1 = p" using a1 by simp
    moreover have "(objs(another \<mapsto> a1, this \<mapsto> t1)) another = Some a1" using 2 by simp
    ultimately show ?thesis using p0 held_iff by blast
  next
    case 3
    then have "(objs(another \<mapsto> a1, this \<mapsto> t1)) x = Some v" using xv by simp
    then show ?thesis using hv p0 held_iff by blast
  qed
qed

lemma exchange_owners:
  assumes a: "objs another = Some a"
    and ht: "ht = (case objs this of Some t \<Rightarrow> h t | None \<Rightarrow> nullptr)"
    and t1: "h t1 = h a" and a1: "h a1 = ht"
    and ex: "\<forall>x y u v. objs x = Some u \<and> objs y = Some v \<and> x \<noteq> y \<and> h u \<noteq> nullptr \<longrightarrow> h u \<noteq> h v"
    and xu: "(objs(another \<mapsto> a1, this \<mapsto> t1)) x = Some u"
    and yv: "(objs(another \<mapsto> a1, this \<mapsto> t1)) y = Some v"
    and xy: "x \<noteq> y" and hu: "h u \<noteq> nullptr"
  shows "h u \<noteq> h v"
proof -
  text \<open>The object that held, before the exchange, the handle an object holds after it.\<close>
  define src where "src z = (if z = this then another else if z = another then this else z)" for z
  have before: "\<exists>w. objs (src z) = Some w \<and> h w = h c"
    if zc: "(objs(another \<mapsto> a1, this \<mapsto> t1)) z = Some c" and nz: "h c \<noteq> nullptr" for z c
  proof -
    consider "z = this" | "z \<noteq> this" "z = another" | "z \<noteq> this" "z \<noteq> another"
      by blast
    then show ?thesis
    proof cases
      case 1
      then have "c = t1" using zc by simp
      then show ?thesis using 1 a t1 by (simp add: src_def)
    next
      case 2
      then have "c = a1" using zc by simp
      then have "ht = h c" using a1 by simp
      then obtain t where "objs this = Some t" "h t = h c"
        using ht nz by (cases "objs this") auto
      then show ?thesis using 2 by (simp add: src_def)
    next
      case 3
      then show ?thesis using zc by (simp add: src_def)
    qed
  qed
  show ?thesis
  proof (cases "this = another")
    case True
    then have same: "src z = z" for z by (simp add: src_def)
    show ?thesis
    proof
      assume eq: "h u = h v"
      then have "h v \<noteq> nullptr" using hu by simp
      then obtain w' where w': "objs y = Some w'" "h w' = h v"
        using before [OF yv] same by auto
      obtain w where w: "objs x = Some w" "h w = h u"
        using before [OF xu hu] same by auto
      show False using ex w w' xy hu eq by metis
    qed
  next
    case False
    have inj: "src x \<noteq> src y"
      using xy False by (auto simp: src_def split: if_splits)
    show ?thesis
    proof
      assume eq: "h u = h v"
      then have "h v \<noteq> nullptr" using hu by simp
      then obtain w' where w': "objs (src y) = Some w'" "h w' = h v"
        using before [OF yv] by auto
      obtain w where w: "objs (src x) = Some w" "h w = h u"
        using before [OF xu hu] by auto
      show False using ex w w' inj hu eq by metis
    qed
  qed
qed

lemma step_exclusive:
  assumes mc: "\<And>a. h (fst (move_ctor a)) = h a \<and> h (snd (move_ctor a)) = nullptr"
    and ma: "\<And>t a. h (fst (move_assign t a)) = h a \<and> h (snd (move_assign t a)) = h t"
    and dt: "\<And>t e. rel (dtor t e) = rel e @ (if h t \<noteq> nullptr then [h t] else [])"
    and ex: "exclusive h objs (rel e)"
    and st: "lifetime_step move_ctor move_assign dtor op (objs, e) = Some (objs1, e1)"
  shows "exclusive h objs1 (rel e1) \<and> held h objs1 \<union> set (rel e1) = held h objs \<union> set (rel e)"
proof (cases op)
  case (Move_construct new another)
  with st obtain a where a: "objs new = None" "objs another = Some a"
    and o1: "objs1 = objs(another \<mapsto> snd (move_ctor a), new \<mapsto> fst (move_ctor a))" and e1: "e1 = e"
    by (auto split: option.splits prod.splits)
  have ht: "nullptr = (case objs new of Some t \<Rightarrow> h t | None \<Rightarrow> nullptr)"
    using a by simp
  have h1: "held h objs1 = held h objs"
    unfolding o1 by (rule exchange_held [OF a(2) ht]) (simp_all add: mc)
  have ex': "\<forall>x y u v. objs x = Some u \<and> objs y = Some v \<and> x \<noteq> y \<and> h u \<noteq> nullptr \<longrightarrow> h u \<noteq> h v"
    using ex unfolding exclusive_def by blast
  have "h u \<noteq> h v"
    if xu: "objs1 x = Some u" and yv: "objs1 y = Some v" and xy: "x \<noteq> y" and hu: "h u \<noteq> nullptr"
    for x y u v
    by (rule exchange_owners [OF a(2) ht _ _ ex' xu [unfolded o1] yv [unfolded o1] xy hu])
       (simp_all add: mc)
  then show ?thesis
    using ex h1 e1 unfolding exclusive_def by blast
next
  case (Move_assign this another)
  with st obtain t a where a: "objs this = Some t" "objs another = Some a"
    and o1: "objs1 = objs(another \<mapsto> snd (move_assign t a), this \<mapsto> fst (move_assign t a))"
    and e1: "e1 = e"
    by (auto split: option.splits prod.splits)
  have ht: "h t = (case objs this of Some t \<Rightarrow> h t | None \<Rightarrow> nullptr)"
    using a by simp
  have h1: "held h objs1 = held h objs"
    unfolding o1 by (rule exchange_held [OF a(2) ht]) (simp_all add: ma)
  have ex': "\<forall>x y u v. objs x = Some u \<and> objs y = Some v \<and> x \<noteq> y \<and> h u \<noteq> nullptr \<longrightarrow> h u \<noteq> h v"
    using ex unfolding exclusive_def by blast
  have "h u \<noteq> h v"
    if xu: "objs1 x = Some u" and yv: "objs1 y = Some v" and xy: "x \<noteq> y" and hu: "h u \<noteq> nullptr"
    for x y u v
    by (rule exchange_owners [OF a(2) ht _ _ ex' xu [unfolded o1] yv [unfolded o1] xy hu])
       (simp_all add: ma)
  then show ?thesis
    using ex h1 e1 unfolding exclusive_def by blast
next
  case (Destroy x)
  with st obtain t where t: "objs x = Some t" and o1: "objs1 = objs(x := None)"
    and e1: "e1 = dtor t e"
    by (auto split: option.splits)
  have ex': "\<forall>x y u v. objs x = Some u \<and> objs y = Some v \<and> x \<noteq> y \<and> h u \<noteq> nullptr \<longrightarrow> h u \<noteq> h v"
    and disj: "held h objs \<inter> set (rel e) = {}" and dist: "distinct (rel e)"
    using ex unfolding exclusive_def by blast+
  have owners: "\<forall>y z u v. objs1 y = Some u \<and> objs1 z = Some v \<and> y \<noteq> z \<and> h u \<noteq> nullptr \<longrightarrow> h u \<noteq> h v"
  proof (intro allI impI)
    fix y z u v
    assume asm: "objs1 y = Some u \<and> objs1 z = Some v \<and> y \<noteq> z \<and> h u \<noteq> nullptr"
    then have "objs y = Some u" "objs z = Some v"
      unfolding o1 by (auto split: if_splits)
    then show "h u \<noteq> h v" using ex' asm by blast
  qed
  have sub: "held h objs1 \<subseteq> held h objs"
  proof
    fix p assume "p \<in> held h objs1"
    then obtain y v where p: "p \<noteq> nullptr" "objs1 y = Some v" "h v = p"
      by (auto simp: held_iff)
    then have "objs y = Some v" unfolding o1 by (auto split: if_splits)
    then show "p \<in> held h objs" using p held_iff by blast
  qed
  show ?thesis
  proof (cases "h t = nullptr")
    case True
    have "held h objs \<subseteq> held h objs1"
    proof
      fix p assume "p \<in> held h objs"
      then obtain y v where p: "p \<noteq> nullptr" "objs y = Some v" "h v = p"
        by (auto simp: held_iff)
      then have "y \<noteq> x" using t True by auto
      then have "objs1 y = Some v" using p unfolding o1 by simp
      then show "p \<in> held h objs1" using p held_iff by blast
    qed
    then have h1: "held h objs1 = held h objs" using sub by blast
    have r: "rel e1 = rel e" using True e1 dt by simp
    show ?thesis
      unfolding exclusive_def h1 r using owners disj dist by blast
  next
    case False
    have r: "rel e1 = rel e @ [h t]" using False e1 dt by simp
    have in_held: "h t \<in> held h objs" using t False held_iff by blast
    have gone: "h t \<notin> held h objs1"
    proof
      assume "h t \<in> held h objs1"
      then obtain y v where p: "objs1 y = Some v" "h v = h t"
        by (auto simp: held_iff)
      then have "y \<noteq> x" "objs y = Some v" unfolding o1 by (auto split: if_splits)
      then show False using ex' t p False by metis
    qed
    have rest: "held h objs - {h t} \<subseteq> held h objs1"
    proof
      fix p assume "p \<in> held h objs - {h t}"
      then obtain y v where p: "p \<noteq> nullptr" "objs y = Some v" "h v = p" "p \<noteq> h t"
        by (auto simp: held_iff)
      then have "y \<noteq> x" using t by auto
      then have "objs1 y = Some v" using p unfolding o1 by simp
      then show "p \<in> held h objs1" using p held_iff by blast
    qed
    have h1: "held h objs1 = held h objs - {h t}"
      using sub gone rest by blast
    have fresh: "h t \<notin> set (rel e)" using disj in_held by blast
    have d1: "distinct (rel e @ [h t])" using dist fresh by simp
    have i1: "(held h objs - {h t}) \<inter> set (rel e @ [h t]) = {}" using disj by auto
    have u1: "(held h objs - {h t}) \<union> set (rel e @ [h t]) = held h objs \<union> set (rel e)"
      using in_held by auto
    show ?thesis
      unfolding exclusive_def h1 r using owners d1 i1 u1 by blast
  qed
qed

lemma lifetime_exclusive:
  assumes mc: "\<And>a. h (fst (move_ctor a)) = h a \<and> h (snd (move_ctor a)) = nullptr"
    and ma: "\<And>t a. h (fst (move_assign t a)) = h a \<and> h (snd (move_assign t a)) = h t"
    and dt: "\<And>t e. rel (dtor t e) = rel e @ (if h t \<noteq> nullptr then [h t] else [])"
  shows "exclusive h objs (rel e) \<Longrightarrow>
         lifetime move_ctor move_assign dtor ops (objs, e) = Some (objs1, e1) \<Longrightarrow>
         exclusive h objs1 (rel e1) \<and> held h objs1 \<union> set (rel e1) = held h objs \<union> set (rel e)"
proof (induction ops arbitrary: objs e)
  case Nil
  then show ?case by simp
next
  case (Cons op ops)
  from Cons.prems(2) obtain objs2 e2
    where s: "lifetime_step move_ctor move_assign dtor op (objs, e) = Some (objs2, e2)"
      and r: "lifetime move_ctor move_assign dtor ops (objs2, e2) = Some (objs1, e1)"
    by (auto split: option.splits)
  from step_exclusive [of h move_ctor move_assign rel dtor objs e op objs2 e2, OF mc ma dt Cons.prems(1) s]
  have 2: "exclusive h objs2 (rel e2)"
    and c: "held h objs2 \<union> set (rel e2) = held h objs \<union> set (rel e)"
    by simp_all
  from Cons.IH [OF 2 r] c show ?case by simp
qed

lemma count_list_distinct: "distinct xs \<Longrightarrow> count_list xs x = (if x \<in> set xs then 1 else 0)"
  by (induction xs) auto


lemma closed_append [simp]: "closed (xs @ ys) = closed xs @ closed ys"
  by (induction xs rule: closed.induct) simp_all

lemma finalized_append [simp]: "finalized (xs @ ys) = finalized xs @ finalized ys"
  by (induction xs rule: finalized.induct) simp_all

lemma db_dtor_closes:
  "closed (snd (db_dtor (traced E) t s))
     = closed (snd s) @ (if db_handle t \<noteq> nullptr then [db_handle t] else [])"
  by (cases s) (simp add: db_dtor_def traced_def)

lemma statement_dtor_finalizes:
  "finalized (snd (statement_dtor (traced E) t s))
     = finalized (snd s) @ (if stmt_handle t \<noteq> nullptr then [stmt_handle t] else [])"
  by (cases s) (simp add: statement_dtor_def traced_def)

lemma released_once:
  assumes ex: "exclusive h objs1 released1"
    and cons: "held h objs1 \<union> set released1 = held h objs \<union> set released"
    and p: "p \<in> held h objs"
  shows "count_list released1 p = (if p \<in> held h objs1 then 0 else 1)"
proof (cases "p \<in> held h objs1")
  case True
  then have "p \<notin> set released1" using ex unfolding exclusive_def by blast
  then show ?thesis using True by simp
next
  case False
  then have "p \<in> set released1" using cons p by blast
  moreover have "distinct released1" using ex unfolding exclusive_def by blast
  ultimately show ?thesis using False by (simp add: count_list_distinct)
qed

lemma moves_run:
  "\<exists>objs1 e1 log1. lifetime db_move_ctor db_move_assign (db_dtor (traced (reference example_run))) moves
         (two_dbs, (fresh [] 0, [])) = Some (objs1, (e1, log1))
       \<and> (\<forall>x. objs1 x = None)"
  by (simp add: moves_def two_dbs_def db_move_ctor_def db_move_assign_def db_dtor_def traced_def)

lemma two_dbs_exclusive: "exclusive db_handle two_dbs []"
  by (auto simp: exclusive_def held_iff two_dbs_def split: if_splits)

lemma moves_run_statements:
  "\<exists>objs1 e1 log1. lifetime statement_move_ctor statement_move_assign
         (statement_dtor (traced (reference example_run))) moves
         (two_statements, (fresh [] 0, [])) = Some (objs1, (e1, log1))
       \<and> (\<forall>x. objs1 x = None)"
  by (simp add: moves_def two_statements_def statement_move_ctor_def statement_move_assign_def
        statement_dtor_def traced_def)

lemma two_statements_exclusive: "exclusive stmt_handle two_statements []"
  by (auto simp: exclusive_def held_iff two_statements_def split: if_splits)

section \<open>Auxiliary facts about the concrete inputs and the ledger\<close>

lemma with_ledger_eq:
  "with_ledger = (fresh [] 0)\<lparr>visible := \<lparr>VersionInfo = Some [], schema = []\<rparr>,
      durable := \<lparr>VersionInfo = Some [], schema = []\<rparr>,
      executed := [sql_create_version_info], next_vm := 2\<rparr>"
  by (simp add: with_ledger_def exec_create) (simp add: fresh_def)

lemma after_create_eq:
  "after_create = (\<lparr>can_fetch = False, stmt_handle = 1\<rparr>,
     (fresh [] 0)\<lparr>visible := \<lparr>VersionInfo = Some [], schema = []\<rparr>,
      durable := \<lparr>VersionInfo = Some [], schema = []\<rparr>,
      executed := [sql_create_version_info], next_vm := 2,
      vms := (\<lambda>st. None)(1 \<mapsto> \<lparr>vm_sql = sql_create_version_info, vm_params = [], vm_row = None\<rparr>)\<rparr>)"
  by (simp add: after_create_def wrapper_defs reference_defs classify_simps fresh_def)

lemma after_select_eq:
  "after_select = (\<lparr>can_fetch = True, stmt_handle = 2\<rparr>,
     (fresh [] 0)\<lparr>visible := \<lparr>VersionInfo = Some [], schema = []\<rparr>,
      durable := \<lparr>VersionInfo = Some [], schema = []\<rparr>,
      executed := [sql_create_version_info, sql_select_max_version], next_vm := 3,
      vms := (\<lambda>st. None)(2 \<mapsto> \<lparr>vm_sql = sql_select_max_version, vm_params = [], vm_row = Some [Sql_null]\<rparr>)\<rparr>)"
  by (simp add: after_select_def with_ledger_eq wrapper_defs reference_defs classify_simps fresh_def)

lemma after_fetch_eq:
  "after_fetch = (\<lparr>can_fetch = False, stmt_handle = 2\<rparr>, snd after_select)"
  by (simp add: after_fetch_def after_select_eq wrapper_defs)

lemma statement_column_handle:
  "stmt_handle this1 = stmt_handle this \<Longrightarrow>
     statement_column E this1 c outs e = statement_column E this c outs e"
  by (induction outs arbitrary: c) simp_all

lemma after_done_eq:
  "after_done = (\<lparr>can_fetch = False, stmt_handle = 2\<rparr>,
     (fresh [] 0)\<lparr>visible := \<lparr>VersionInfo = Some [], schema = []\<rparr>,
      durable := \<lparr>VersionInfo = Some [], schema = []\<rparr>,
      executed := [sql_create_version_info, sql_select_max_version], next_vm := 3,
      vms := (\<lambda>st. None)(2 \<mapsto> \<lparr>vm_sql = sql_select_max_version, vm_params = [], vm_row = None\<rparr>)\<rparr>)"
  by (simp add: after_done_def after_fetch_eq after_select_eq wrapper_defs reference_defs fresh_def)

lemma after_begin_eq:
  "after_begin = (\<lparr>can_fetch = False, stmt_handle = 2\<rparr>,
     (fresh [] 0)\<lparr>visible := \<lparr>VersionInfo = Some [], schema = []\<rparr>,
      durable := \<lparr>VersionInfo = Some [], schema = []\<rparr>,
      autocommit := False,
      executed := [sql_create_version_info, sql_begin DEFERRED], next_vm := 3,
      vms := (\<lambda>st. None)(2 \<mapsto> \<lparr>vm_sql = sql_begin DEFERRED, vm_params = [], vm_row = None\<rparr>)\<rparr>)"
  by (simp add: after_begin_def with_ledger_eq wrapper_defs reference_defs classify_simps fresh_def)

lemma fetch_generic:
  "(statement_execute E this args e = (Inr (), this1, e1) \<longrightarrow>
       stmt_handle this1 = stmt_handle this
     \<and> (\<exists>e2. sqlite3_step E (stmt_handle this) e2
              = (if can_fetch this1 then SQLITE_ROW else SQLITE_DONE, e1)))
   \<and> (can_fetch this \<longrightarrow>
        statement_fetch E this outs e
          = (Inr True, this\<lparr>can_fetch := False\<rparr>, statement_column E this 0 outs e, e))
   \<and> (\<not> can_fetch this \<longrightarrow>
        statement_fetch E this outs e
          = (case sqlite3_step E (stmt_handle this) e of
               (res, e') \<Rightarrow>
                 if res = SQLITE_DONE then (Inr False, this, outs, e')
                 else if res = SQLITE_ROW
                 then (Inr True, this, statement_column E this 0 outs e', e')
                 else (Inl (exception_statement E (stmt_handle this) e'), this, outs, e')))
   \<and> (fst (snd (snd (statement_fetch E this outs e))) \<noteq> outs \<longrightarrow>
        fst (statement_fetch E this outs e) = Inr True)
   \<and> \<not> can_fetch (fst (snd (statement_fetch E this outs e)))"
proof (intro conjI impI)
  assume ex: "statement_execute E this args e = (Inr (), this1, e1)"
  let ?e2 = "snd (statement_bind E this 1 TRANSIENT args (snd (statement_reset E this e)))"
  from ex have s: "statement_step E this ?e2 = (Inr (), this1, e1)"
    by (auto simp: statement_execute_def statement_execute_policy_def split: prod.splits sum.splits)
  then show "stmt_handle this1 = stmt_handle this"
    by (auto simp: statement_step_def split: prod.splits if_splits)
  from s have "sqlite3_step E (stmt_handle this) ?e2
      = (if can_fetch this1 then SQLITE_ROW else SQLITE_DONE, e1)"
    by (auto simp: statement_step_def split: prod.splits if_splits)
  then show "\<exists>e2. sqlite3_step E (stmt_handle this) e2
              = (if can_fetch this1 then SQLITE_ROW else SQLITE_DONE, e1)"
    by blast
next
  assume "can_fetch this"
  then show "statement_fetch E this outs e
          = (Inr True, this\<lparr>can_fetch := False\<rparr>, statement_column E this 0 outs e, e)"
    by (simp add: statement_fetch_def)
next
  assume "\<not> can_fetch this"
  then show "statement_fetch E this outs e
          = (case sqlite3_step E (stmt_handle this) e of
               (res, e') \<Rightarrow>
                 if res = SQLITE_DONE then (Inr False, this, outs, e')
                 else if res = SQLITE_ROW
                 then (Inr True, this, statement_column E this 0 outs e', e')
                 else (Inl (exception_statement E (stmt_handle this) e'), this, outs, e'))"
    by (cases "sqlite3_step E (stmt_handle this) e")
       (auto simp: statement_fetch_def statement_step_def
          statement_column_handle [of "this\<lparr>can_fetch := True\<rparr>" this])
next
  assume "fst (snd (snd (statement_fetch E this outs e))) \<noteq> outs"
  then show "fst (statement_fetch E this outs e) = Inr True"
    by (cases "sqlite3_step E (stmt_handle this) e")
       (auto simp: statement_fetch_def statement_step_def split: if_splits)
next
  show "\<not> can_fetch (fst (snd (statement_fetch E this outs e)))"
    by (cases "sqlite3_step E (stmt_handle this) e")
       (auto simp: statement_fetch_def statement_step_def split: if_splits)
qed

lemma fetch_query:
  assumes "wf r" and "VersionInfo (visible r) = Some rows"
  shows "\<exists>st r1 st1 r2 r3.
           db_execute (reference run) d sql_select_max_version [] r = (Inr st, r1)
           \<and> can_fetch st
           \<and> statement_fetch (reference run) st [V_int32 x] r1
               = (Inr True, st1, [V_int32 (word_of_int (current_version rows))], r1)
           \<and> statement_fetch (reference run) st1 [V_int32 y] r1 = (Inr False, st1, [V_int32 y], r2)
           \<and> statement_fetch (reference run) st1 [V_int32 z] r2
               = (Inr True, st1, [V_int32 (word_of_int (current_version rows))], r3)"
  using assms
  by (cases "max_version rows")
     (simp_all add: wrapper_defs reference_defs classify_simps current_version_def)

lemma fetch_command:
  assumes "wf r"
  shows "\<exists>st r1 r2.
           db_execute (reference run) d sql_create_version_info [] r = (Inr st, r1)
           \<and> \<not> can_fetch st
           \<and> statement_fetch (reference run) st outs r1 = (Inr False, st, outs, r2)"
  using assms
  by (cases "VersionInfo (visible r)")
     (simp_all add: wrapper_defs reference_defs classify_simps)


lemma aborting_eq:
  "aborting = (\<lparr>can_fetch = False, stmt_handle = 2\<rparr>,
     (fresh [] 0)\<lparr>visible := \<lparr>VersionInfo = Some [], schema = []\<rparr>,
      durable := \<lparr>VersionInfo = Some [], schema = []\<rparr>,
      executed := [sql_create_version_info], next_vm := 3,
      vms := (\<lambda>st. None)(2 \<mapsto> \<lparr>vm_sql = ''INSERT INTO missing VALUES (1)'', vm_params = [],
                                 vm_row = None\<rparr>)\<rparr>)"
  by (simp add: aborting_def with_ledger_eq db_prepare_def wrapper_defs reference_defs
        classify_def sql_defs example_run_def fresh_def)

lemma statement_bind_flag:
  "statement_bind E (this\<lparr>can_fetch := b\<rparr>) i policy args e = statement_bind E this i policy args e"
  by (induction args arbitrary: i e) (simp_all split: prod.splits)

lemma current_version_empty [simp]: "current_version [] = 0"
  by (simp add: current_version_def)

lemma fresh_simps [simp]:
  "visible (fresh s t) = \<lparr>VersionInfo = None, schema = s\<rparr>"
  "durable (fresh s t) = \<lparr>VersionInfo = None, schema = s\<rparr>"
  "autocommit (fresh s t)"
  "now (fresh s t) = t"
  "executed (fresh s t) = []"
  by (simp_all add: fresh_def)

lemma example_bodies:
  "classify ''CREATE TABLE a (x)'' = K_body"
  "classify ''CREATE TABLE b (y)'' = K_body"
  "classify ''CREATE TABLE c (z)'' = K_body"
  "classify ''CREATE TABLE d (w)'' = K_body"
  "classify ''bogus'' = K_body"
  by (simp_all add: classify_def sql_defs)

lemma example_runs:
  "run_all example_run three_migrations [] = Some three_migrations"
  "run_all example_run [''CREATE TABLE d (w)''] three_migrations = Some four_migrations"
  "run_all example_run [''CREATE TABLE a (x)''] [] = Some [''CREATE TABLE a (x)'']"
  "example_run ''bogus'' s = Rejected"
  by (simp_all add: example_run_def three_migrations_def four_migrations_def)

lemma ledger_Some: "VersionInfo (visible e) = Some rows \<Longrightarrow> ledger e = rows"
  by (simp add: ledger_def)

lemma visible_with_ledger:
  "VersionInfo (visible e) = Some rows \<Longrightarrow> (visible e)\<lparr>VersionInfo := Some rows\<rparr> = visible e"
  by (cases "visible e") simp

lemma int_below: "(n::nat) < 2 ^ 31 \<Longrightarrow> int n < 2 ^ 31"
proof -
  assume "n < 2 ^ 31"
  then have "int n < int (2 ^ 31)" by (simp only: of_nat_less_iff)
  then show ?thesis by simp
qed

lemma migrated_simps [simp]:
  "wf migrated" "autocommit migrated" "durable migrated = visible migrated"
  "VersionInfo (visible migrated) = Some (ledger_rows 0 0 3)"
  "schema (visible migrated) = three_migrations"
  by (simp_all add: migrated_def)

lemma migrated_version: "current_version (ledger_rows 0 0 3) = int 3"
  using current_version_extended [of "[]" 0 3 0] by simp

lemma broken_run:
  "apply_migrations (reference example_run) example_db broken_migrations (fresh [] 0) =
    (Inl (Exception ''SQL logic error''),
     (fresh [] 0)\<lparr>visible := \<lparr>VersionInfo = Some (ledger_rows 0 0 1), schema = [''CREATE TABLE a (x)'']\<rparr>,
       durable := \<lparr>VersionInfo = Some [], schema = []\<rparr>,
       autocommit := False,
       executed := [sql_create_version_info, sql_select_max_version, sql_begin DEFERRED]
                     @ statements [''CREATE TABLE a (x)''],
       errmsg := ''SQL logic error'',
       next_vm := 6\<rparr>)"
proof -
  have d: "drop 0 broken_migrations = [''CREATE TABLE a (x)''] @ ''bogus'' # [''CREATE TABLE c (z)'']"
    by (simp add: broken_migrations_def)
  have r: "run_all example_run [''CREATE TABLE a (x)''] (schema (visible (fresh [] 0)))
        = Some [''CREATE TABLE a (x)'']"
    by (simp add: example_run_def)
  have n: "\<forall>s'. example_run ''bogus'' [''CREATE TABLE a (x)''] \<noteq> Applied s'"
    by (simp add: example_run_def)
  have l: "int 0 < int (length broken_migrations)" "length broken_migrations < 2 ^ 31"
    by (simp_all add: broken_migrations_def)
  from migrate_fails [where e = "fresh [] 0" and ms = broken_migrations and v = 0
          and pre = "[''CREATE TABLE a (x)'']" and bad = "''bogus''"
          and post = "[''CREATE TABLE c (z)'']" and run = example_run
          and s = "[''CREATE TABLE a (x)'']" and d = example_db, OF _ _ _ _ _ _ d _ _ r n]
  show ?thesis
    using l by (simp add: example_bodies example_runs) (simp add: fresh_def)
qed

lemma statements_simps [simp]:
  "statements [] = []"
  "statements (m # ms) = m # sql_insert_version_info # statements ms"
  by (simp_all add: statements_def)

lemma set_statements: "set (statements pre) \<subseteq> insert sql_insert_version_info (set pre)"
  by (induction pre) auto

lemma body_is_not_control:
  assumes "classify m = K_body"
  shows "m \<noteq> sql_rollback \<and> m \<noteq> sql_commit"
proof (intro conjI notI)
  assume "m = sql_rollback"
  then have "classify sql_rollback = K_body" using assms by simp
  then show False by (simp add: classify_simps)
next
  assume "m = sql_commit"
  then have "classify sql_commit = K_body" using assms by simp
  then show False by (simp add: classify_simps)
qed

lemma statements_no_control:
  assumes "\<forall>m\<in>set pre. classify m = K_body"
  shows "sql_rollback \<notin> set (statements pre) \<and> sql_commit \<notin> set (statements pre)"
proof -
  have ins: "sql_insert_version_info \<noteq> sql_rollback" "sql_insert_version_info \<noteq> sql_commit"
    by (simp_all add: sql_defs)
  have pre: "sql_rollback \<notin> set pre \<and> sql_commit \<notin> set pre"
  proof (intro conjI notI)
    assume "sql_rollback \<in> set pre"
    then have "classify sql_rollback = K_body" using assms by (rule_tac bspec)
    then show False by (simp add: classify_simps)
  next
    assume "sql_commit \<in> set pre"
    then have "classify sql_commit = K_body" using assms by (rule_tac bspec)
    then show False by (simp add: classify_simps)
  qed
  show ?thesis
  proof (intro conjI notI)
    assume "sql_rollback \<in> set (statements pre)"
    then have "sql_rollback \<in> insert sql_insert_version_info (set pre)"
      using set_statements by (rule_tac subsetD)
    then show False using ins pre by simp
  next
    assume "sql_commit \<in> set (statements pre)"
    then have "sql_commit \<in> insert sql_insert_version_info (set pre)"
      using set_statements by (rule_tac subsetD)
    then show False using ins pre by simp
  qed
qed


section \<open>The version read from an empty ledger\<close>

text \<open>
  Claim C7. When the VersionInfo table exists and holds no rows, the version query
  \<^verbatim>\<open>SELECT MAX(Version) FROM VersionInfo\<close> returns one row whose only column is NULL;
  \<^verbatim>\<open>fetch\<close> reads it into the \<^verbatim>\<open>int\<close> output as 0, whatever the output held before, through
  the NULL-as-zero conversion of \<^verbatim>\<open>sqlite3_column_int\<close>; so \<^verbatim>\<open>get_last_applied_version\<close>
  returns 0 and the first run starts at version 1.
\<close>

theorem empty_ledger_reads_version_zero:
  assumes "wf e" and "VersionInfo (visible e) = Some []"
  shows "(\<exists>st e1. db_execute (reference run) d sql_select_max_version [] e = (Inr st, e1)
            \<and> can_fetch st
            \<and> sqlite3_column_type (reference run) (stmt_handle st) 0 e1 = SQLITE_NULL
            \<and> (\<forall>x. fst (statement_fetch (reference run) st [V_int32 x] e1) = Inr True
                   \<and> fst (snd (snd (statement_fetch (reference run) st [V_int32 x] e1))) = [V_int32 0]))
         \<and> fst (get_last_applied_version (reference run) d e) = Inr 0"
proof -
  have "fst (get_last_applied_version (reference run) d e) = Inr 0"
    using assms by (simp add: exec_select [where rows = "[]"] current_version_def)
  moreover have "\<exists>st e1. db_execute (reference run) d sql_select_max_version [] e = (Inr st, e1)
            \<and> can_fetch st
            \<and> sqlite3_column_type (reference run) (stmt_handle st) 0 e1 = SQLITE_NULL
            \<and> (\<forall>x. fst (statement_fetch (reference run) st [V_int32 x] e1) = Inr True
                   \<and> fst (snd (snd (statement_fetch (reference run) st [V_int32 x] e1))) = [V_int32 0])"
    using assms by (simp add: wrapper_defs reference_defs classify_simps)
  ultimately show ?thesis by simp
qed

theorem empty_ledger_reads_version_zero_witness:
  "wf (fresh () 0\<lparr>visible := \<lparr>VersionInfo = Some [], schema = ()\<rparr>\<rparr>)
   \<and> VersionInfo (visible (fresh () 0\<lparr>visible := \<lparr>VersionInfo = Some [], schema = ()\<rparr>\<rparr>)) = Some []
   \<and> fst (get_last_applied_version (reference (\<lambda>sql s. Applied s)) \<lparr>db_handle = 1\<rparr>
         (fresh () 0\<lparr>visible := \<lparr>VersionInfo = Some [], schema = ()\<rparr>\<rparr>)) = Inr 0"
  using empty_ledger_reads_version_zero
    [of "fresh () 0\<lparr>visible := \<lparr>VersionInfo = Some [], schema = ()\<rparr>\<rparr>" "\<lambda>sql s. Applied s" "\<lparr>db_handle = 1\<rparr>"]
  by simp


section \<open>Execute that fails\<close>

text \<open>
  Claim C4, as the code has it. When \<^verbatim>\<open>sqlite3_reset\<close>, a bind or \<^verbatim>\<open>sqlite3_step\<close> reports a
  status that is not a success during \<^verbatim>\<open>execute\<close>, an exception is raised and the statement
  object is left as it was before the call: \<^verbatim>\<open>_can_fetch\<close> keeps the value it had. An
  \<^verbatim>\<open>execute\<close> that succeeds does not depend on that value, so the statement can be retried
  with a fresh \<^verbatim>\<open>execute\<close>.
\<close>

theorem execute_failure_keeps_flag:
  "(fst (sqlite3_reset E (stmt_handle this) e) \<noteq> SQLITE_OK \<longrightarrow>
      isl (fst (statement_execute E this args e)))
   \<and> (fst (sqlite3_reset E (stmt_handle this) e) = SQLITE_OK
        \<and> isl (fst (statement_bind E this 1 TRANSIENT args (snd (sqlite3_reset E (stmt_handle this) e))))
      \<longrightarrow> isl (fst (statement_execute E this args e)))
   \<and> (fst (sqlite3_reset E (stmt_handle this) e) = SQLITE_OK
        \<and> statement_bind E this 1 TRANSIENT args (snd (sqlite3_reset E (stmt_handle this) e)) = (Inr (), e2)
        \<and> fst (sqlite3_step E (stmt_handle this) e2) \<noteq> SQLITE_ROW
        \<and> fst (sqlite3_step E (stmt_handle this) e2) \<noteq> SQLITE_DONE
      \<longrightarrow> isl (fst (statement_execute E this args e)))
   \<and> (isl (fst (statement_execute E this args e)) \<longrightarrow>
        fst (snd (statement_execute E this args e)) = this)
   \<and> (\<not> isl (fst (statement_execute E this args e)) \<longrightarrow>
        statement_execute E (this\<lparr>can_fetch := b\<rparr>) args e = statement_execute E this args e)"
  by (cases "sqlite3_reset E (stmt_handle this) e";
      cases "statement_bind E this 1 TRANSIENT args (snd (sqlite3_reset E (stmt_handle this) e))";
      cases "sqlite3_step E (stmt_handle this)
               (snd (statement_bind E this 1 TRANSIENT args (snd (sqlite3_reset E (stmt_handle this) e))))")
     (auto simp: statement_execute_def statement_execute_policy_def statement_reset_def
        statement_step_def statement_bind_flag split: sum.splits)


text \<open>
  The claim as stated fails: a statement with an unread row, whose next \<^verbatim>\<open>execute\<close> fails
  in a bind (a parameter is passed to a statement that has none), still has its flag set;
  \<^verbatim>\<open>fetch\<close> then returns true and overwrites the output with the column of a reset
  statement.
\<close>

theorem execute_failure_counterexample:
  "isl (fst (statement_execute (reference example_run) (fst after_select) [V_int64 5]
              (snd after_select)))
   \<and> fst (statement_fetch (reference example_run)
        (fst (snd (statement_execute (reference example_run) (fst after_select) [V_int64 5]
                     (snd after_select))))
        [V_int32 7]
        (snd (snd (statement_execute (reference example_run) (fst after_select) [V_int64 5]
                     (snd after_select))))) = Inr True
   \<and> fst (snd (snd (statement_fetch (reference example_run)
        (fst (snd (statement_execute (reference example_run) (fst after_select) [V_int64 5]
                     (snd after_select))))
        [V_int32 7]
        (snd (snd (statement_execute (reference example_run) (fst after_select) [V_int64 5]
                     (snd after_select))))))) = [V_int32 0]"
  by (simp add: after_select_eq wrapper_defs reference_defs classify_simps fresh_def)

theorem execute_failure_keeps_flag_witness:
  "isl (fst (statement_bind (reference example_run) (fst after_select) 1 TRANSIENT [V_int64 5]
         (snd (sqlite3_reset (reference example_run) (stmt_handle (fst after_select))
                (snd after_select)))))
   \<and> isl (fst (statement_execute (reference example_run) (fst after_select) [V_int64 5]
              (snd after_select)))
   \<and> fst (snd (statement_execute (reference example_run) (fst after_select) [V_int64 5]
              (snd after_select))) = fst after_select
   \<and> fst (sqlite3_step (reference example_run) (stmt_handle (fst aborting)) (snd aborting))
        = SQLITE_ERROR
   \<and> fst (snd (statement_execute (reference example_run) (fst aborting) [] (snd aborting)))
        = fst aborting
   \<and> fst (sqlite3_reset failing_reset (stmt_handle (fst after_select)) (snd after_select))
        \<noteq> SQLITE_OK
   \<and> fst (snd (statement_execute failing_reset (fst after_select) [] (snd after_select)))
        = fst after_select
   \<and> \<not> isl (fst (statement_execute (reference example_run) (fst after_select) []
                (snd after_select)))
   \<and> statement_execute (reference example_run) ((fst after_select)\<lparr>can_fetch := False\<rparr>) []
         (snd after_select)
       = statement_execute (reference example_run) (fst after_select) [] (snd after_select)"
proof -
  have bind: "isl (fst (statement_bind (reference example_run) (fst after_select) 1 TRANSIENT
         [V_int64 5]
         (snd (sqlite3_reset (reference example_run) (stmt_handle (fst after_select))
                (snd after_select)))))"
    by (simp add: after_select_eq wrapper_defs reference_defs fresh_def)
  have reset: "fst (sqlite3_reset (reference example_run) (stmt_handle (fst after_select))
                (snd after_select)) = SQLITE_OK"
    by (simp add: after_select_eq reference_defs fresh_def)
  have step: "fst (sqlite3_step (reference example_run) (stmt_handle (fst aborting)) (snd aborting))
        = SQLITE_ERROR"
    by (simp add: aborting_eq reference_defs classify_def sql_defs example_run_def fresh_def)
  have abort: "isl (fst (statement_execute (reference example_run) (fst aborting) [] (snd aborting)))"
    by (simp add: aborting_eq wrapper_defs reference_defs classify_def sql_defs example_run_def
          fresh_def)
  have fr: "fst (sqlite3_reset failing_reset (stmt_handle (fst after_select)) (snd after_select))
        \<noteq> SQLITE_OK"
    by (simp add: failing_reset_def)
  have ok: "\<not> isl (fst (statement_execute (reference example_run) (fst after_select) []
                (snd after_select)))"
    by (simp add: after_select_eq wrapper_defs reference_defs classify_simps fresh_def)
  show ?thesis
    using bind reset step abort fr ok
      execute_failure_keeps_flag [of "reference example_run" "fst after_select" "snd after_select"
        "[V_int64 5]" undefined False]
      execute_failure_keeps_flag [of "reference example_run" "fst aborting" "snd aborting"
        "[]" undefined False]
      execute_failure_keeps_flag [of failing_reset "fst after_select" "snd after_select"
        "[]" undefined False]
      execute_failure_keeps_flag [of "reference example_run" "fst after_select" "snd after_select"
        "[]" undefined False]
    by simp
qed



section \<open>Fetch without a row\<close>

text \<open>
  Claim C5, as the code has it. \<^verbatim>\<open>_can_fetch\<close> is clear after an \<^verbatim>\<open>execute\<close> whose step
  produced no row, and after every \<^verbatim>\<open>fetch\<close>. A \<^verbatim>\<open>fetch\<close> on a statement whose flag is clear
  advances the engine one step: when the step reports completion, \<^verbatim>\<open>fetch\<close> returns false
  and every output argument is what it was; when it fails, \<^verbatim>\<open>fetch\<close> raises and the outputs
  are what they were; when it reports a row, \<^verbatim>\<open>fetch\<close> reads the columns and returns true.
  A \<^verbatim>\<open>fetch\<close> on a statement whose flag is set reads the columns without a step, clears the
  flag and returns true. So the outputs are written only when \<^verbatim>\<open>fetch\<close> returns true, and
  it is the flag or the step, not the row count of the execution, that decides it. On the
  reference engine: the one row of the version query is fetched, the next \<^verbatim>\<open>fetch\<close> returns
  false and leaves the output, and the \<^verbatim>\<open>fetch\<close> after that runs the completed statement
  again and reads its row; the \<^verbatim>\<open>fetch\<close> that follows the execution of the table creation,
  which produced no row, returns false and leaves the outputs.
\<close>

theorem fetch_follows_flag_and_step:
  "(statement_execute E this args e = (Inr (), this1, e1) \<longrightarrow>
       stmt_handle this1 = stmt_handle this
     \<and> (\<exists>e2. sqlite3_step E (stmt_handle this) e2
              = (if can_fetch this1 then SQLITE_ROW else SQLITE_DONE, e1)))
   \<and> (can_fetch this \<longrightarrow>
        statement_fetch E this outs e
          = (Inr True, this\<lparr>can_fetch := False\<rparr>, statement_column E this 0 outs e, e))
   \<and> (\<not> can_fetch this \<longrightarrow>
        statement_fetch E this outs e
          = (case sqlite3_step E (stmt_handle this) e of
               (res, e') \<Rightarrow>
                 if res = SQLITE_DONE then (Inr False, this, outs, e')
                 else if res = SQLITE_ROW
                 then (Inr True, this, statement_column E this 0 outs e', e')
                 else (Inl (exception_statement E (stmt_handle this) e'), this, outs, e')))
   \<and> (fst (snd (snd (statement_fetch E this outs e))) \<noteq> outs \<longrightarrow>
        fst (statement_fetch E this outs e) = Inr True)
   \<and> \<not> can_fetch (fst (snd (statement_fetch E this outs e)))
   \<and> (wf r \<and> VersionInfo (visible r) = Some rows \<longrightarrow>
        (\<exists>st r1 st1 r2 r3.
           db_execute (reference run) d sql_select_max_version [] r = (Inr st, r1)
           \<and> can_fetch st
           \<and> statement_fetch (reference run) st [V_int32 x] r1
               = (Inr True, st1, [V_int32 (word_of_int (current_version rows))], r1)
           \<and> statement_fetch (reference run) st1 [V_int32 y] r1 = (Inr False, st1, [V_int32 y], r2)
           \<and> statement_fetch (reference run) st1 [V_int32 z] r2
               = (Inr True, st1, [V_int32 (word_of_int (current_version rows))], r3)))
   \<and> (wf r \<longrightarrow>
        (\<exists>st r1 r2.
           db_execute (reference run) d sql_create_version_info [] r = (Inr st, r1)
           \<and> \<not> can_fetch st
           \<and> statement_fetch (reference run) st outs r1 = (Inr False, st, outs, r2)))"
  using fetch_generic [of E this args e this1 e1 outs]
    fetch_query [of r rows run d x y z] fetch_command [of r run d outs]
  by blast

text \<open>
  The claim as stated fails. The rows of the version query are all consumed and a \<^verbatim>\<open>fetch\<close>
  has returned false; the next \<^verbatim>\<open>fetch\<close> returns true and overwrites the output 7 with 0,
  since the engine runs a completed statement again. The execution of \<^verbatim>\<open>BEGIN\<close> produced no
  row; the \<^verbatim>\<open>fetch\<close> on its statement steps it again inside the transaction it opened and
  raises instead of returning false.
\<close>

theorem fetch_counterexample:
  "\<not> can_fetch (fst after_fetch)
   \<and> statement_fetch (reference example_run) (fst after_fetch) [V_int32 7] (snd after_fetch)
       = (Inr False, fst after_done, [V_int32 7], snd after_done)
   \<and> \<not> can_fetch (fst after_done)
   \<and> fst (statement_fetch (reference example_run) (fst after_done) [V_int32 7] (snd after_done))
       = Inr True
   \<and> fst (snd (snd (statement_fetch (reference example_run) (fst after_done) [V_int32 7]
         (snd after_done)))) = [V_int32 0]
   \<and> fst (db_execute (reference example_run) example_db (sql_begin DEFERRED) [] with_ledger)
       = Inr (fst after_begin)
   \<and> \<not> can_fetch (fst after_begin)
   \<and> isl (fst (statement_fetch (reference example_run) (fst after_begin) [V_int32 7]
         (snd after_begin)))"
proof -
  have 1: "statement_fetch (reference example_run) (fst after_fetch) [V_int32 7] (snd after_fetch)
       = (Inr False, fst after_done, [V_int32 7], snd after_done)"
    by (simp add: after_done_eq after_fetch_eq after_select_eq wrapper_defs reference_defs fresh_def)
  have 2: "statement_fetch (reference example_run) (fst after_done) [V_int32 7] (snd after_done)
       = (Inr True, \<lparr>can_fetch = False, stmt_handle = 2\<rparr>, [V_int32 0],
          snd (sqlite3_step (reference example_run) 2 (snd after_done)))"
    by (simp add: after_done_eq wrapper_defs reference_defs classify_simps fresh_def)
  have 3: "fst (db_execute (reference example_run) example_db (sql_begin DEFERRED) [] with_ledger)
       = Inr (fst after_begin)"
    by (simp add: after_begin_eq with_ledger_eq wrapper_defs reference_defs classify_simps fresh_def)
  have 4: "isl (fst (statement_fetch (reference example_run) (fst after_begin) [V_int32 7]
         (snd after_begin)))"
    by (simp add: after_begin_eq wrapper_defs reference_defs classify_simps fresh_def)
  show ?thesis
    using 1 2 3 4 by (simp add: after_fetch_eq after_done_eq after_begin_eq)
qed

theorem fetch_follows_flag_and_step_witness:
  "fst (statement_execute (reference example_run) (fst after_select) [] (snd after_select)) = Inr ()
   \<and> stmt_handle (fst (snd (statement_execute (reference example_run) (fst after_select) []
         (snd after_select)))) = stmt_handle (fst after_select)
   \<and> can_fetch (fst after_select)
   \<and> statement_fetch (reference example_run) (fst after_select) [V_int32 7] (snd after_select)
       = (Inr True, (fst after_select)\<lparr>can_fetch := False\<rparr>,
          statement_column (reference example_run) (fst after_select) 0 [V_int32 7]
            (snd after_select),
          snd after_select)
   \<and> \<not> can_fetch (fst after_fetch)
   \<and> fst (sqlite3_step (reference example_run) (stmt_handle (fst after_fetch)) (snd after_fetch))
       = SQLITE_DONE
   \<and> fst (statement_fetch (reference example_run) (fst after_fetch) [V_int32 7] (snd after_fetch))
       = Inr False
   \<and> fst (snd (snd (statement_fetch (reference example_run) (fst after_fetch) [V_int32 7]
         (snd after_fetch)))) = [V_int32 7]
   \<and> fst (snd (snd (statement_fetch (reference example_run) (fst after_done) [V_int32 7]
         (snd after_done)))) \<noteq> [V_int32 7]
   \<and> fst (statement_fetch (reference example_run) (fst after_done) [V_int32 7] (snd after_done))
       = Inr True
   \<and> wf with_ledger
   \<and> VersionInfo (visible with_ledger) = Some []
   \<and> (\<exists>st r1 st1 r2 r3.
         db_execute (reference example_run) example_db sql_select_max_version [] with_ledger
           = (Inr st, r1)
         \<and> can_fetch st
         \<and> statement_fetch (reference example_run) st [V_int32 7] r1
             = (Inr True, st1, [V_int32 (word_of_int (current_version []))], r1)
         \<and> statement_fetch (reference example_run) st1 [V_int32 7] r1
             = (Inr False, st1, [V_int32 7], r2)
         \<and> statement_fetch (reference example_run) st1 [V_int32 7] r2
             = (Inr True, st1, [V_int32 (word_of_int (current_version []))], r3))
   \<and> (\<exists>st r1 r2.
         db_execute (reference example_run) example_db sql_create_version_info [] with_ledger
           = (Inr st, r1)
         \<and> \<not> can_fetch st
         \<and> statement_fetch (reference example_run) st [V_int32 7] r1
             = (Inr False, st, [V_int32 7], r2))"
proof -
  let ?R = "reference example_run"
  let ?X = "statement_execute ?R (fst after_select) [] (snd after_select)"
  have ok: "fst ?X = Inr ()"
    by (simp add: after_select_eq wrapper_defs reference_defs classify_simps fresh_def)
  then have x: "?X = (Inr (), fst (snd ?X), snd (snd ?X))"
    by (metis prod.collapse)
  have sel: "can_fetch (fst after_select)"
    by (simp add: after_select_eq)
  have fet: "\<not> can_fetch (fst after_fetch)"
    by (simp add: after_fetch_eq)
  have step: "sqlite3_step ?R (stmt_handle (fst after_fetch)) (snd after_fetch)
        = (SQLITE_DONE, snd after_done)"
    by (simp add: after_fetch_eq after_done_eq after_select_eq reference_defs fresh_def)
  have changed: "fst (snd (snd (statement_fetch ?R (fst after_done) [V_int32 7] (snd after_done))))
        \<noteq> [V_int32 7]"
    by (simp add: after_done_eq wrapper_defs reference_defs classify_simps fresh_def)
  have led: "wf with_ledger" "VersionInfo (visible with_ledger) = Some []"
    by (simp_all add: with_ledger_eq wf_def fresh_def)
  note a = fetch_follows_flag_and_step
    [where E = ?R and this = "fst after_select" and args = "[]" and e = "snd after_select"
       and ?this1.0 = "fst (snd ?X)" and ?e1.0 = "snd (snd ?X)" and outs = "[V_int32 7]"
       and r = with_ledger and rows = "[]" and run = example_run and d = example_db
       and x = 7 and y = 7 and z = 7]
  note b = fetch_follows_flag_and_step
    [where E = ?R and this = "fst after_fetch" and e = "snd after_fetch" and outs = "[V_int32 7]"
       and r = with_ledger and run = example_run and d = example_db]
  note c = fetch_follows_flag_and_step
    [where E = ?R and this = "fst after_done" and e = "snd after_done" and outs = "[V_int32 7]"
       and r = with_ledger and run = example_run and d = example_db]
  have 1: "stmt_handle (fst (snd ?X)) = stmt_handle (fst after_select)"
    using a x by blast
  have 2: "statement_fetch ?R (fst after_select) [V_int32 7] (snd after_select)
       = (Inr True, (fst after_select)\<lparr>can_fetch := False\<rparr>,
          statement_column ?R (fst after_select) 0 [V_int32 7] (snd after_select),
          snd after_select)"
    using a sel by blast
  have 3: "statement_fetch ?R (fst after_fetch) [V_int32 7] (snd after_fetch)
       = (Inr False, fst after_fetch, [V_int32 7], snd after_done)"
    using b fet step by simp
  have 4: "fst (statement_fetch ?R (fst after_done) [V_int32 7] (snd after_done)) = Inr True"
    using c changed by blast
  have 5: "\<exists>st r1 st1 r2 r3.
         db_execute ?R example_db sql_select_max_version [] with_ledger = (Inr st, r1)
         \<and> can_fetch st
         \<and> statement_fetch ?R st [V_int32 7] r1
             = (Inr True, st1, [V_int32 (word_of_int (current_version []))], r1)
         \<and> statement_fetch ?R st1 [V_int32 7] r1 = (Inr False, st1, [V_int32 7], r2)
         \<and> statement_fetch ?R st1 [V_int32 7] r2
             = (Inr True, st1, [V_int32 (word_of_int (current_version []))], r3)"
    using a led by blast
  have 6: "\<exists>st r1 r2.
         db_execute ?R example_db sql_create_version_info [] with_ledger = (Inr st, r1)
         \<and> \<not> can_fetch st
         \<and> statement_fetch ?R st [V_int32 7] r1 = (Inr False, st, [V_int32 7], r2)"
    using a led by blast
  show ?thesis
    using ok 1 sel 2 fet step 3 changed 4 led 5 6 by simp
qed


section \<open>Optional values\<close>

text \<open>
  Claim C6. For every \<^verbatim>\<open>T\<close>, given by its \<^verbatim>\<open>bind\<close> and \<^verbatim>\<open>column\<close>, binding an absent optional
  binds SQL NULL, binding a present one is \<^verbatim>\<open>T\<close>'s bind of the content, and reading a NULL
  column yields the absent optional, in the \<^verbatim>\<open>std::optional\<close> and in the
  \<^verbatim>\<open>boost::optional\<close> variant. On the reference engine an absent optional bound to the
  parameter of \<^verbatim>\<open>SELECT ?\<close> is read back as absent, whatever the output held.
\<close>

theorem optional_absent_is_null:
  "optional_bind bind_T E st i None policy e = sqlite3_bind_null E st i e
   \<and> optional_bind bind_T E st i (Some v) policy e = bind_T st i v policy e
   \<and> boost_optional_bind bind_T E st i None policy e = sqlite3_bind_null E st i e
   \<and> boost_optional_bind bind_T E st i (Some v) policy e = bind_T st i v policy e
   \<and> (sqlite3_column_type E st c e = SQLITE_NULL \<longrightarrow>
        optional_column column_T emplaced E st c arg e = None
        \<and> boost_optional_column column_B E st c arg e = Defined None)
   \<and> (wf r \<longrightarrow>
        (\<exists>s r1 s2 r2.
           db_prepare (reference run) d sql_echo r = (Inr s, r1)
           \<and> statement_execute (reference run) s [V_optional t None] r1 = (Inr (), s2, r2)
           \<and> fst (statement_fetch (reference run) s2 [V_optional t out] r2) = Inr True
           \<and> fst (snd (snd (statement_fetch (reference run) s2 [V_optional t out] r2)))
               = [V_optional t None]))"
  by (simp add: optional_bind_def boost_optional_bind_def optional_column_def
        boost_optional_column_def db_prepare_def wrapper_defs reference_defs classify_simps)

theorem optional_absent_is_null_witness:
  "sqlite3_column_type (reference example_run) (stmt_handle (fst after_select)) 0 (snd after_select)
     = SQLITE_NULL
   \<and> optional_column (\<lambda>st c v e. sqlite3_column_int (reference example_run) st c e) 0
        (reference example_run) (stmt_handle (fst after_select)) 0 (Some 3) (snd after_select)
       = None
   \<and> wf (fresh [] 0)
   \<and> fst (snd (snd (statement_fetch (reference example_run)
        (fst (snd (statement_execute (reference example_run)
           (projr (fst (db_prepare (reference example_run) example_db sql_echo (fresh [] 0))))
           [V_optional T_int32 None]
           (snd (db_prepare (reference example_run) example_db sql_echo (fresh [] 0))))))
        [V_optional T_int32 (Some (V_int32 3))]
        (snd (snd (statement_execute (reference example_run)
           (projr (fst (db_prepare (reference example_run) example_db sql_echo (fresh [] 0))))
           [V_optional T_int32 None]
           (snd (db_prepare (reference example_run) example_db sql_echo (fresh [] 0))))))))) 
      = [V_optional T_int32 None]"
proof -
  have null: "sqlite3_column_type (reference example_run) (stmt_handle (fst after_select)) 0
     (snd after_select) = SQLITE_NULL"
    by (simp add: after_select_eq reference_defs fresh_def)
  from optional_absent_is_null
    [of "\<lambda>st i v p e. sqlite3_bind_int (reference example_run) st i v e" "reference example_run"
        "stmt_handle (fst after_select)" 1 TRANSIENT "snd after_select" 0 0
        "\<lambda>st c v e. sqlite3_column_int (reference example_run) st c e" 0 "Some 3"
        "\<lambda>st c v e. Defined (sqlite3_column_int (reference example_run) st c e)"
        "fresh [] 0" example_run example_db T_int32 "Some (V_int32 3)"]
  show ?thesis
    using null by (auto simp: wf_fresh)
qed

text \<open>
  Claim C10. In the \<^verbatim>\<open>boost::optional\<close> variant, reading a column that is not NULL
  dereferences the output optional as it is passed: an empty one is dereferenced, which
  is undefined; an engaged one is written through by \<^verbatim>\<open>T\<close>'s column read. When \<^verbatim>\<open>T\<close>'s
  read is defined, the read into the optional is defined exactly when the column is NULL
  or the output optional is engaged.
\<close>

theorem boost_optional_column_needs_engaged:
  "(sqlite3_column_type E st c e \<noteq> SQLITE_NULL \<longrightarrow>
      boost_optional_column column_T E st c None e = Undefined_behaviour
      \<and> boost_optional_column column_T E st c (Some v) e
          = (case column_T st c v e of
               Undefined_behaviour \<Rightarrow> Undefined_behaviour
             | Defined v' \<Rightarrow> Defined (Some v')))
   \<and> ((\<forall>v. column_T st c v e \<noteq> Undefined_behaviour) \<longrightarrow>
        (boost_optional_column column_T E st c arg e \<noteq> Undefined_behaviour
         \<longleftrightarrow> sqlite3_column_type E st c e = SQLITE_NULL \<or> arg \<noteq> None))"
  by (auto simp: boost_optional_column_def split: option.splits defined.splits)

theorem boost_optional_column_needs_engaged_witness:
  "sqlite3_column_type (reference example_run) (stmt_handle (fst with_version)) 0 (snd with_version)
     \<noteq> SQLITE_NULL
   \<and> boost_optional_column
        (\<lambda>st c v e. Defined (sqlite3_column_int (reference example_run) st c e))
        (reference example_run) (stmt_handle (fst with_version)) 0 None (snd with_version)
       = Undefined_behaviour
   \<and> boost_optional_column
        (\<lambda>st c v e. Defined (sqlite3_column_int (reference example_run) st c e))
        (reference example_run) (stmt_handle (fst with_version)) 0 (Some 0) (snd with_version)
       = Defined (Some 3)"
proof -
  have nonnull: "sqlite3_column_type (reference example_run) (stmt_handle (fst with_version)) 0
     (snd with_version) \<noteq> SQLITE_NULL"
    by (simp add: with_version_def reference_defs fresh_def)
  have val: "sqlite3_column_int (reference example_run) (stmt_handle (fst with_version)) 0
     (snd with_version) = 3"
    by (simp add: with_version_def reference_defs fresh_def)
  from boost_optional_column_needs_engaged
    [of "reference example_run" "stmt_handle (fst with_version)" 0 "snd with_version"
        "\<lambda>st c v e. Defined (sqlite3_column_int (reference example_run) st c e)" 0 None]
  show ?thesis
    using nonnull val by simp
qed


section \<open>Moves and destruction\<close>

text \<open>
  Claim C8, as the code has it. Move construction gives the new object the handle of the
  source and leaves the source with \<^verbatim>\<open>nullptr\<close>, whose destructor releases nothing. Move
  assignment swaps: the target gets the handle of the source, and the source gets the
  handle the target held, which the destructor of the source then releases (nothing when
  the target held \<^verbatim>\<open>nullptr\<close>). For \<^verbatim>\<open>statement\<close> the flag travels with the handle. Over any
  list of moves and destructions that starts from exclusively owned handles, ownership
  stays exclusive, and every handle held at the start is either still held by a live
  object and not released, or released exactly once.
\<close>

theorem move_exchanges_handles:
  "db_handle (fst (db_move_ctor another)) = db_handle another
   \<and> db_handle (snd (db_move_ctor another)) = nullptr
   \<and> closed (snd (db_dtor (traced E) (snd (db_move_ctor another)) (e, log))) = closed log
   \<and> db_handle (fst (db_move_assign this another)) = db_handle another
   \<and> db_handle (snd (db_move_assign this another)) = db_handle this
   \<and> closed (snd (db_dtor (traced E) (snd (db_move_assign this another)) (e, log)))
       = closed log @ (if db_handle this \<noteq> nullptr then [db_handle this] else [])
   \<and> (exclusive db_handle objs (closed log)
        \<and> lifetime db_move_ctor db_move_assign (db_dtor (traced E)) ops (objs, (e, log))
            = Some (objs1, (e1, log1))
      \<longrightarrow> exclusive db_handle objs1 (closed log1)
          \<and> (\<forall>p\<in>held db_handle objs.
                count_list (closed log1) p = (if p \<in> held db_handle objs1 then 0 else 1)))
   \<and> stmt_handle (fst (statement_move_ctor s_another)) = stmt_handle s_another
   \<and> can_fetch (fst (statement_move_ctor s_another)) = can_fetch s_another
   \<and> stmt_handle (snd (statement_move_ctor s_another)) = nullptr
   \<and> finalized (snd (statement_dtor (traced E) (snd (statement_move_ctor s_another)) (e, log)))
       = finalized log
   \<and> stmt_handle (fst (statement_move_assign s_this s_another)) = stmt_handle s_another
   \<and> can_fetch (fst (statement_move_assign s_this s_another)) = can_fetch s_another
   \<and> stmt_handle (snd (statement_move_assign s_this s_another)) = stmt_handle s_this
   \<and> finalized (snd (statement_dtor (traced E) (snd (statement_move_assign s_this s_another))
         (e, log)))
       = finalized log @ (if stmt_handle s_this \<noteq> nullptr then [stmt_handle s_this] else [])
   \<and> (exclusive stmt_handle stmts (finalized log)
        \<and> lifetime statement_move_ctor statement_move_assign (statement_dtor (traced E)) ops
              (stmts, (e, log))
            = Some (stmts1, (e2, log2))
      \<longrightarrow> exclusive stmt_handle stmts1 (finalized log2)
          \<and> (\<forall>p\<in>held stmt_handle stmts.
                count_list (finalized log2) p = (if p \<in> held stmt_handle stmts1 then 0 else 1)))"
proof -
  have db_moves: "db_handle (fst (db_move_ctor another)) = db_handle another
     \<and> db_handle (snd (db_move_ctor another)) = nullptr
     \<and> db_handle (fst (db_move_assign this another)) = db_handle another
     \<and> db_handle (snd (db_move_assign this another)) = db_handle this"
    by (simp add: db_move_ctor_def db_move_assign_def)
  have st_moves: "stmt_handle (fst (statement_move_ctor s_another)) = stmt_handle s_another
     \<and> can_fetch (fst (statement_move_ctor s_another)) = can_fetch s_another
     \<and> stmt_handle (snd (statement_move_ctor s_another)) = nullptr
     \<and> stmt_handle (fst (statement_move_assign s_this s_another)) = stmt_handle s_another
     \<and> can_fetch (fst (statement_move_assign s_this s_another)) = can_fetch s_another
     \<and> stmt_handle (snd (statement_move_assign s_this s_another)) = stmt_handle s_this"
    by (simp add: statement_move_ctor_def statement_move_assign_def)
  have db_life: "exclusive db_handle objs1 (closed log1)
          \<and> (\<forall>p\<in>held db_handle objs.
                count_list (closed log1) p = (if p \<in> held db_handle objs1 then 0 else 1))"
    if ex: "exclusive db_handle objs (closed log)"
      and run: "lifetime db_move_ctor db_move_assign (db_dtor (traced E)) ops (objs, (e, log))
            = Some (objs1, (e1, log1))"
  proof -
    have "exclusive db_handle objs1 ((closed \<circ> snd) (e1, log1))
       \<and> held db_handle objs1 \<union> set ((closed \<circ> snd) (e1, log1))
           = held db_handle objs \<union> set ((closed \<circ> snd) (e, log))"
      using ex run
      by (intro lifetime_exclusive [where move_ctor = db_move_ctor and move_assign = db_move_assign
            and dtor = "db_dtor (traced E)" and ops = ops])
         (simp_all add: db_move_ctor_def db_move_assign_def db_dtor_closes)
    then show ?thesis
      using released_once [of db_handle objs1 "closed log1" objs "closed log"] by simp
  qed
  have st_life: "exclusive stmt_handle stmts1 (finalized log2)
          \<and> (\<forall>p\<in>held stmt_handle stmts.
                count_list (finalized log2) p = (if p \<in> held stmt_handle stmts1 then 0 else 1))"
    if ex: "exclusive stmt_handle stmts (finalized log)"
      and run: "lifetime statement_move_ctor statement_move_assign (statement_dtor (traced E)) ops
              (stmts, (e, log)) = Some (stmts1, (e2, log2))"
  proof -
    have "exclusive stmt_handle stmts1 ((finalized \<circ> snd) (e2, log2))
       \<and> held stmt_handle stmts1 \<union> set ((finalized \<circ> snd) (e2, log2))
           = held stmt_handle stmts \<union> set ((finalized \<circ> snd) (e, log))"
      using ex run
      by (intro lifetime_exclusive [where move_ctor = statement_move_ctor
            and move_assign = statement_move_assign
            and dtor = "statement_dtor (traced E)" and ops = ops])
         (simp_all add: statement_move_ctor_def statement_move_assign_def statement_dtor_finalizes)
    then show ?thesis
      using released_once [of stmt_handle stmts1 "finalized log2" stmts "finalized log"] by simp
  qed
  show ?thesis
    using db_moves st_moves db_life st_life
    by (simp add: db_dtor_closes statement_dtor_finalizes)
qed

text \<open>
  The claim as stated fails for move assignment: after \<^verbatim>\<open>a = std::move(b)\<close> with \<^verbatim>\<open>a\<close>
  holding handle 1 and \<^verbatim>\<open>b\<close> holding handle 2, the moved-from \<^verbatim>\<open>b\<close> holds handle 1 and its
  destructor closes it.
\<close>

theorem move_assignment_counterexample:
  "db_handle (snd (db_move_assign \<lparr>db_handle = 1\<rparr> \<lparr>db_handle = 2\<rparr>)) = 1
   \<and> closed (snd (db_dtor (traced (reference example_run))
        (snd (db_move_assign \<lparr>db_handle = 1\<rparr> \<lparr>db_handle = 2\<rparr>)) (fresh [] 0, []))) = [1]"
  by (simp add: db_move_assign_def db_dtor_def traced_def)


theorem move_exchanges_handles_witness:
  "exclusive db_handle two_dbs (closed [])
   \<and> count_list (closed (snd (snd (the (lifetime db_move_ctor db_move_assign
        (db_dtor (traced (reference example_run))) moves (two_dbs, (fresh [] 0, []))))))) 1 = 1
   \<and> count_list (closed (snd (snd (the (lifetime db_move_ctor db_move_assign
        (db_dtor (traced (reference example_run))) moves (two_dbs, (fresh [] 0, []))))))) 2 = 1
   \<and> exclusive stmt_handle two_statements (finalized [])
   \<and> count_list (finalized (snd (snd (the (lifetime statement_move_ctor statement_move_assign
        (statement_dtor (traced (reference example_run))) moves
        (two_statements, (fresh [] 0, []))))))) 1 = 1
   \<and> count_list (finalized (snd (snd (the (lifetime statement_move_ctor statement_move_assign
        (statement_dtor (traced (reference example_run))) moves
        (two_statements, (fresh [] 0, []))))))) 2 = 1"
proof -
  obtain objs1 e1 log1 where run: "lifetime db_move_ctor db_move_assign
         (db_dtor (traced (reference example_run))) moves
         (two_dbs, (fresh [] 0, [])) = Some (objs1, (e1, log1))"
    and dead: "\<forall>x. objs1 x = None"
    using moves_run by blast
  obtain stmts1 e2 log2 where run2: "lifetime statement_move_ctor statement_move_assign
         (statement_dtor (traced (reference example_run))) moves
         (two_statements, (fresh [] 0, [])) = Some (stmts1, (e2, log2))"
    and dead2: "\<forall>x. stmts1 x = None"
    using moves_run_statements by blast
  have held: "1 \<in> held db_handle two_dbs" "2 \<in> held db_handle two_dbs"
    by (auto simp: held_iff two_dbs_def)
  have held2: "1 \<in> held stmt_handle two_statements" "2 \<in> held stmt_handle two_statements"
    by (auto simp: held_iff two_statements_def)
  have none: "held db_handle objs1 = {}" "held stmt_handle stmts1 = {}"
    using dead dead2 by (auto simp: held_iff)
  from move_exchanges_handles
    [of "\<lparr>db_handle = 2\<rparr>" "reference example_run" "fresh [] 0" "[]" "\<lparr>db_handle = 1\<rparr>"
        two_dbs moves objs1 e1 log1
        "\<lparr>can_fetch = False, stmt_handle = 2\<rparr>" "\<lparr>can_fetch = True, stmt_handle = 1\<rparr>"
        two_statements stmts1 e2 log2]
  show ?thesis
    using run run2 held held2 none two_dbs_exclusive two_statements_exclusive by simp
qed


section \<open>Applying migrations\<close>

text \<open>
  Claim C1. On a new database, for every list of migration bodies that execute, the run
  succeeds; it creates the VersionInfo table, executes the bodies in list order, each
  followed by the insertion of its ledger row, between one \<^verbatim>\<open>BEGIN\<close> and one \<^verbatim>\<open>COMMIT\<close>; the
  ledger then holds the versions 1 to n in that order, each with a timestamp that is not
  NULL, and the schema is the one the bodies produce in that order. A body is a text
  other than the statements the runner itself issues; n is below \<open>2 ^ 31\<close>, the range of
  the \<^verbatim>\<open>int\<close> the runner reads the version into.
\<close>

theorem fresh_database_records_versions:
  assumes "\<forall>m\<in>set ms. classify m = K_body"
    and "run_all run ms s0 = Some s"
    and "length ms < 2 ^ 31"
  shows "\<exists>e1 rows. apply_migrations (reference run) d ms (fresh s0 t) = (Inr (), e1)
     \<and> VersionInfo (visible e1) = Some rows
     \<and> map Version rows = map int [1 ..< Suc (length ms)]
     \<and> (\<forall>r\<in>set rows. AppliedOn r \<noteq> None)
     \<and> schema (visible e1) = s
     \<and> durable e1 = visible e1
     \<and> autocommit e1
     \<and> executed e1 = [sql_create_version_info, sql_select_max_version]
          @ (if ms = [] then [] else [sql_begin DEFERRED] @ statements ms @ [sql_commit])"
proof (cases "ms = []")
  case True
  have "apply_migrations (reference run) d ms (fresh s0 t) =
    (Inr (),
     (fresh s0 t)\<lparr>visible := (visible (fresh s0 t))\<lparr>VersionInfo := Some (ledger (fresh s0 t))\<rparr>,
       durable := (if autocommit (fresh s0 t)
                   then (visible (fresh s0 t))\<lparr>VersionInfo := Some (ledger (fresh s0 t))\<rparr>
                   else durable (fresh s0 t)),
       executed := executed (fresh s0 t) @ [sql_create_version_info, sql_select_max_version],
       next_vm := next_vm (fresh s0 t) + 2\<rparr>)"
    using True by (intro migrate_noop) simp_all
  then show ?thesis
    using True assms(2) by simp
next
  case False
  have "apply_migrations (reference run) d ms (fresh s0 t) =
    (Inr (),
     (fresh s0 t)\<lparr>visible := (visible (fresh s0 t))\<lparr>VersionInfo :=
                      Some (ledger (fresh s0 t) @ ledger_rows (now (fresh s0 t)) 0 (length ms - 0)),
                      schema := s\<rparr>,
       durable := (visible (fresh s0 t))\<lparr>VersionInfo :=
                      Some (ledger (fresh s0 t) @ ledger_rows (now (fresh s0 t)) 0 (length ms - 0)),
                      schema := s\<rparr>,
       autocommit := True,
       executed := executed (fresh s0 t)
                     @ [sql_create_version_info, sql_select_max_version, sql_begin DEFERRED]
                     @ statements (drop 0 ms) @ [sql_commit],
       next_vm := next_vm (fresh s0 t) + 2 * (length ms - 0) + 4\<rparr>)"
    using False assms by (intro migrate_ok) simp_all
  then show ?thesis
    using False by (simp add: ledger_rows_versions ledger_rows_timestamps)
qed


theorem fresh_database_records_versions_witness:
  "list_all (\<lambda>m. classify m = K_body) three_migrations
   \<and> run_all example_run three_migrations [] = Some three_migrations
   \<and> length three_migrations < 2 ^ 31
   \<and> fst (apply_migrations (reference example_run) example_db three_migrations (fresh [] 0)) = Inr ()
   \<and> map Version (the (VersionInfo (visible (snd
        (apply_migrations (reference example_run) example_db three_migrations (fresh [] 0))))))
       = map int [1 ..< Suc (length three_migrations)]
   \<and> schema (visible (snd
        (apply_migrations (reference example_run) example_db three_migrations (fresh [] 0))))
       = three_migrations"
proof -
  have b: "\<forall>m\<in>set three_migrations. classify m = K_body"
    by (simp add: three_migrations_def example_bodies)
  have n: "length three_migrations < 2 ^ 31"
    by (simp add: three_migrations_def)
  from fresh_database_records_versions [OF b example_runs(1) n, of example_db 0]
  show ?thesis
    using b n example_runs(1) by (auto simp: list_all_iff)
qed


text \<open>
  Claim C3. On a connection whose ledger records version v: a run with a list of at most
  v migrations executes only the table creation and the version query, no body and no
  ledger insert, and changes nothing; a run with a longer list executes, inside one
  transaction, exactly the bodies at the 0-based positions from v on, each followed by
  its ledger insert, and leaves the ledger maximum at the length of the list. Nothing
  before position v is executed again.
\<close>

theorem rerun_applies_only_new_migrations:
  assumes "wf e" and "autocommit e" and "durable e = visible e"
    and "VersionInfo (visible e) = Some rows"
    and "current_version rows = int v" and "v < 2 ^ 31"
  shows "(length ms \<le> v \<longrightarrow>
           (\<exists>e1. apply_migrations (reference run) d ms e = (Inr (), e1)
              \<and> visible e1 = visible e \<and> durable e1 = durable e \<and> autocommit e1
              \<and> executed e1 = executed e @ [sql_create_version_info, sql_select_max_version]))
       \<and> (v < length ms \<and> length ms < 2 ^ 31
            \<and> (\<forall>m\<in>set (drop v ms). classify m = K_body)
            \<and> run_all run (drop v ms) (schema (visible e)) = Some s \<longrightarrow>
           (\<exists>e1. apply_migrations (reference run) d ms e = (Inr (), e1)
              \<and> executed e1 = executed e
                   @ [sql_create_version_info, sql_select_max_version, sql_begin DEFERRED]
                   @ statements (drop v ms) @ [sql_commit]
              \<and> ledger e1 = rows @ ledger_rows (now e) v (length ms - v)
              \<and> current_version (ledger e1) = int (length ms)
              \<and> schema (visible e1) = s
              \<and> durable e1 = visible e1 \<and> autocommit e1))"
proof (intro conjI impI)
  assume short: "length ms \<le> v"
  have "apply_migrations (reference run) d ms e =
    (Inr (),
     e\<lparr>visible := (visible e)\<lparr>VersionInfo := Some (ledger e)\<rparr>,
       durable := (if autocommit e then (visible e)\<lparr>VersionInfo := Some (ledger e)\<rparr> else durable e),
       executed := executed e @ [sql_create_version_info, sql_select_max_version],
       next_vm := next_vm e + 2\<rparr>)"
    using assms short by (intro migrate_noop) (simp_all add: ledger_Some int_below)
  then show "\<exists>e1. apply_migrations (reference run) d ms e = (Inr (), e1)
              \<and> visible e1 = visible e \<and> durable e1 = durable e \<and> autocommit e1
              \<and> executed e1 = executed e @ [sql_create_version_info, sql_select_max_version]"
    using assms by (simp add: ledger_Some visible_with_ledger)
next
  assume more: "v < length ms \<and> length ms < 2 ^ 31
            \<and> (\<forall>m\<in>set (drop v ms). classify m = K_body)
            \<and> run_all run (drop v ms) (schema (visible e)) = Some s"
  have "apply_migrations (reference run) d ms e =
    (Inr (),
     e\<lparr>visible := (visible e)\<lparr>VersionInfo :=
                      Some (ledger e @ ledger_rows (now e) v (length ms - v)), schema := s\<rparr>,
       durable := (visible e)\<lparr>VersionInfo :=
                      Some (ledger e @ ledger_rows (now e) v (length ms - v)), schema := s\<rparr>,
       autocommit := True,
       executed := executed e @ [sql_create_version_info, sql_select_max_version, sql_begin DEFERRED]
                     @ statements (drop v ms) @ [sql_commit],
       next_vm := next_vm e + 2 * (length ms - v) + 4\<rparr>)"
    using assms more by (intro migrate_ok) (simp_all add: ledger_Some)
  moreover have "current_version (rows @ ledger_rows (now e) v (length ms - v)) = int (v + (length ms - v))"
    using assms(5) more by (intro current_version_extended) simp_all
  ultimately show "\<exists>e1. apply_migrations (reference run) d ms e = (Inr (), e1)
              \<and> executed e1 = executed e
                   @ [sql_create_version_info, sql_select_max_version, sql_begin DEFERRED]
                   @ statements (drop v ms) @ [sql_commit]
              \<and> ledger e1 = rows @ ledger_rows (now e) v (length ms - v)
              \<and> current_version (ledger e1) = int (length ms)
              \<and> schema (visible e1) = s
              \<and> durable e1 = visible e1 \<and> autocommit e1"
    using assms more by (simp add: ledger_Some ledger_def)
qed


theorem rerun_applies_only_new_migrations_witness:
  "wf migrated \<and> autocommit migrated \<and> durable migrated = visible migrated
   \<and> VersionInfo (visible migrated) = Some (ledger_rows 0 0 3)
   \<and> current_version (ledger_rows 0 0 3) = int 3
   \<and> length three_migrations \<le> 3
   \<and> executed (snd (apply_migrations (reference example_run) example_db three_migrations migrated))
       = executed migrated @ [sql_create_version_info, sql_select_max_version]
   \<and> visible (snd (apply_migrations (reference example_run) example_db three_migrations migrated))
       = visible migrated
   \<and> 3 < length four_migrations
   \<and> run_all example_run (drop 3 four_migrations) (schema (visible migrated)) = Some four_migrations
   \<and> executed (snd (apply_migrations (reference example_run) example_db four_migrations migrated))
       = executed migrated
           @ [sql_create_version_info, sql_select_max_version, sql_begin DEFERRED]
           @ statements [''CREATE TABLE d (w)''] @ [sql_commit]
   \<and> current_version (ledger (snd (apply_migrations (reference example_run) example_db
         four_migrations migrated))) = 4"
proof -
  have small: "(3::nat) < 2 ^ 31" by simp
  have len: "length three_migrations \<le> 3" "3 < length four_migrations"
    "length four_migrations < 2 ^ 31"
    by (simp_all add: three_migrations_def four_migrations_def)
  have d: "drop 3 four_migrations = [''CREATE TABLE d (w)'']"
    by (simp add: three_migrations_def four_migrations_def)
  have b: "\<forall>m\<in>set (drop 3 four_migrations). classify m = K_body"
    by (simp add: d example_bodies)
  have r: "run_all example_run (drop 3 four_migrations) (schema (visible migrated))
             = Some four_migrations"
    unfolding d by (simp add: example_run_def four_migrations_def)
  note t = rerun_applies_only_new_migrations
    [OF migrated_simps(1) migrated_simps(2) migrated_simps(3) migrated_simps(4) migrated_version small]
  have l4: "length four_migrations = 4"
    by (simp add: three_migrations_def four_migrations_def)
  from t [of three_migrations example_run example_db undefined]
       t [of four_migrations example_run example_db four_migrations]
  show ?thesis
    using len b r migrated_version l4 by (auto simp: d)
qed

section \<open>A migration that fails\<close>

text \<open>
  Claim C2, as the code has it. When a body fails, the run raises an exception and commits
  nothing: the durable schema is the one from before the run and the durable ledger holds
  the rows from before the run (the ledger table itself, created before the transaction
  began, stays). No \<^verbatim>\<open>COMMIT\<close> and no \<^verbatim>\<open>ROLLBACK\<close> is issued: the transaction is left open, and
  the connection sees the bodies before the failing one and their ledger rows. A
  \<^verbatim>\<open>rollback()\<close> by the caller, or closing the connection, discards them and leaves the
  schema and the ledger at their state before the run.
\<close>

theorem failed_run_commits_nothing:
  assumes "wf e" and "autocommit e" and "durable e = visible e"
    and "current_version (ledger e) = int v" and "v < length ms" and "length ms < 2 ^ 31"
    and "drop v ms = pre @ bad # post"
    and "\<forall>m\<in>set pre. classify m = K_body" and "classify bad = K_body"
    and "run_all run pre (schema (visible e)) = Some s" and "\<forall>s'. run bad s \<noteq> Applied s'"
    and "db_handle d \<noteq> nullptr"
  shows "\<exists>ex e1. apply_migrations (reference run) d ms e = (Inl ex, e1)
     \<and> schema (durable e1) = schema (durable e)
     \<and> VersionInfo (durable e1) = Some (ledger e)
     \<and> \<not> autocommit e1
     \<and> executed e1 = executed e
          @ [sql_create_version_info, sql_select_max_version, sql_begin DEFERRED] @ statements pre
     \<and> ledger e1 = ledger e @ ledger_rows (now e) v (length pre)
     \<and> schema (visible e1) = s
     \<and> (\<exists>e2. db_rollback (reference run) d e1 = (Inr (), e2)
            \<and> visible e2 = durable e1 \<and> durable e2 = durable e1 \<and> autocommit e2)
     \<and> visible (db_dtor (reference run) d e1) = durable e1
     \<and> durable (db_dtor (reference run) d e1) = durable e1"
proof -
  let ?e1 = "e\<lparr>visible := (visible e)\<lparr>VersionInfo :=
                      Some (ledger e @ ledger_rows (now e) v (length pre)), schema := s\<rparr>,
       durable := (visible e)\<lparr>VersionInfo := Some (ledger e)\<rparr>,
       autocommit := False,
       executed := executed e @ [sql_create_version_info, sql_select_max_version, sql_begin DEFERRED]
                     @ statements pre,
       errmsg := ''SQL logic error'',
       next_vm := next_vm e + 2 * length pre + (if run bad s = Rejected then 3 else 4)\<rparr>"
  have run: "apply_migrations (reference run) d ms e = (Inl (Exception ''SQL logic error''), ?e1)"
    using assms by (intro migrate_fails) simp_all
  have wf1: "wf ?e1"
    using assms(1) by (simp add: wf_def)
  have rb: "db_rollback (reference run) d ?e1 =
    (Inr (), ?e1\<lparr>visible := durable ?e1, autocommit := True,
              executed := executed ?e1 @ [sql_rollback], next_vm := Suc (next_vm ?e1)\<rparr>)"
    using wf1 by (intro exec_rollback) simp_all
  have cl: "db_dtor (reference run) d ?e1 = ?e1\<lparr>visible := durable ?e1, autocommit := True\<rparr>"
    using assms(12) by (simp add: db_dtor_def reference_def ref_close_def)
  show ?thesis
    using assms(3) run rb cl by (simp add: ledger_def)
qed


text \<open>
  The claim as stated fails: after the run of three migrations whose second body is
  rejected, the run has raised, and on the same connection the version query returns 1
  and the schema holds the first migration.
\<close>

theorem failed_run_counterexample:
  "isl (fst (apply_migrations (reference example_run) example_db broken_migrations (fresh [] 0)))
   \<and> fst (get_last_applied_version (reference example_run) example_db
        (snd (apply_migrations (reference example_run) example_db broken_migrations (fresh [] 0))))
       = Inr 1
   \<and> schema (visible
        (snd (apply_migrations (reference example_run) example_db broken_migrations (fresh [] 0))))
       = [''CREATE TABLE a (x)'']"
proof -
  have v: "current_version (ledger_rows 0 0 1) = int 1"
    using current_version_extended [of "[]" 0 1 0] by simp
  let ?e1 = "(fresh [] 0)\<lparr>visible := \<lparr>VersionInfo = Some (ledger_rows 0 0 1),
                                        schema = [''CREATE TABLE a (x)'']\<rparr>,
       durable := \<lparr>VersionInfo = Some [], schema = []\<rparr>,
       autocommit := False,
       executed := [sql_create_version_info, sql_select_max_version, sql_begin DEFERRED]
                     @ statements [''CREATE TABLE a (x)''],
       errmsg := ''SQL logic error'',
       next_vm := 6\<rparr>"
  have "wf ?e1" by (simp add: wf_def fresh_def)
  then have "get_last_applied_version (reference example_run) example_db ?e1 =
    (Inr (word_of_int (current_version (ledger_rows 0 0 1))),
     ?e1\<lparr>executed := executed ?e1 @ [sql_select_max_version], next_vm := Suc (next_vm ?e1)\<rparr>)"
    by (intro exec_select) simp_all
  then show ?thesis
    using v by (simp add: broken_run)
qed

theorem failed_run_commits_nothing_witness:
  "wf (fresh [] 0 :: string list sqlite)
   \<and> autocommit (fresh [] 0 :: string list sqlite)
   \<and> durable (fresh [] 0 :: string list sqlite) = visible (fresh [] 0)
   \<and> current_version (ledger (fresh [] 0 :: string list sqlite)) = int 0
   \<and> drop 0 broken_migrations = [''CREATE TABLE a (x)''] @ ''bogus'' # [''CREATE TABLE c (z)'']
   \<and> run_all example_run [''CREATE TABLE a (x)''] (schema (visible (fresh [] 0)))
        = Some [''CREATE TABLE a (x)'']
   \<and> (\<forall>s'. example_run ''bogus'' [''CREATE TABLE a (x)''] \<noteq> Applied s')
   \<and> isl (fst (apply_migrations (reference example_run) example_db broken_migrations (fresh [] 0)))
   \<and> VersionInfo (durable (snd (apply_migrations (reference example_run) example_db
         broken_migrations (fresh [] 0)))) = Some []
   \<and> schema (durable (snd (apply_migrations (reference example_run) example_db
         broken_migrations (fresh [] 0)))) = []
   \<and> \<not> autocommit (snd (apply_migrations (reference example_run) example_db
         broken_migrations (fresh [] 0)))"
proof -
  have h: "wf (fresh [] 0 :: string list sqlite)" "autocommit (fresh [] 0 :: string list sqlite)"
    "durable (fresh [] 0 :: string list sqlite) = visible (fresh [] 0)"
    "current_version (ledger (fresh [] 0 :: string list sqlite)) = int 0"
    "0 < length broken_migrations"
    "length broken_migrations < 2 ^ 31"
    "drop 0 broken_migrations = [''CREATE TABLE a (x)''] @ ''bogus'' # [''CREATE TABLE c (z)'']"
    "\<forall>m\<in>set [''CREATE TABLE a (x)'']. classify m = K_body" "classify ''bogus'' = K_body"
    "run_all example_run [''CREATE TABLE a (x)''] (schema (visible (fresh [] 0)))
        = Some [''CREATE TABLE a (x)'']"
    "\<forall>s'. example_run ''bogus'' [''CREATE TABLE a (x)''] \<noteq> Applied s'"
    "db_handle example_db \<noteq> nullptr"
    by (simp_all add: broken_migrations_def example_bodies example_run_def example_db_def)
  from failed_run_commits_nothing [OF h]
  show ?thesis
    using h by auto
qed


text \<open>
  Claim C9. Whatever the engine answers, a run never compiles the \<^verbatim>\<open>ROLLBACK\<close> statement,
  and it compiles \<^verbatim>\<open>COMMIT\<close> only as its last statement (the migration list holding neither
  text itself): a run that ends in a body or in a ledger insert has issued neither. On
  the reference engine, when a body
  fails after \<^verbatim>\<open>begin()\<close>, the exception leaves the connection inside the transaction:
  neither \<^verbatim>\<open>COMMIT\<close> nor \<^verbatim>\<open>ROLLBACK\<close> has been executed, the durable ledger is the one from
  before the run, and a version query on the same connection sees the ledger rows of the
  bodies that ran before the failure.
\<close>

theorem no_rollback_is_issued:
  "(sql_rollback \<notin> set ms \<and> sql_commit \<notin> set ms \<longrightarrow>
      (\<exists>new. prepared (snd (snd (apply_migrations (traced E) d ms (e, log)))) = prepared log @ new
         \<and> sql_rollback \<notin> set new
         \<and> (sql_commit \<in> set new \<longrightarrow> last new = sql_commit)))
   \<and> (wf r \<and> autocommit r \<and> current_version (ledger r) = int v
        \<and> v < length ms \<and> length ms < 2 ^ 31 \<and> drop v ms = pre @ bad # post
        \<and> (\<forall>m\<in>set pre. classify m = K_body) \<and> classify bad = K_body
        \<and> run_all run pre (schema (visible r)) = Some s \<and> (\<forall>s'. run bad s \<noteq> Applied s')
      \<longrightarrow> (\<exists>ex r1. apply_migrations (reference run) d ms r = (Inl ex, r1)
            \<and> \<not> autocommit r1
            \<and> executed r1 = executed r
                 @ [sql_create_version_info, sql_select_max_version, sql_begin DEFERRED]
                 @ statements pre
            \<and> sql_rollback \<notin> set (statements pre) \<and> sql_commit \<notin> set (statements pre)
            \<and> ledger r1 = ledger r @ ledger_rows (now r) v (length pre)
            \<and> VersionInfo (durable r1) = Some (ledger r)
            \<and> fst (get_last_applied_version (reference run) d r1)
                = Inr (word_of_nat (v + length pre))))"
proof (intro conjI impI)
  assume "sql_rollback \<notin> set ms \<and> sql_commit \<notin> set ms"
  then show "\<exists>new. prepared (snd (snd (apply_migrations (traced E) d ms (e, log)))) = prepared log @ new
         \<and> sql_rollback \<notin> set new
         \<and> (sql_commit \<in> set new \<longrightarrow> last new = sql_commit)"
    using traced_migrations_extends [of ms E d "(e, log)"] by simp
next
  assume a: "wf r \<and> autocommit r \<and> current_version (ledger r) = int v
        \<and> v < length ms \<and> length ms < 2 ^ 31 \<and> drop v ms = pre @ bad # post
        \<and> (\<forall>m\<in>set pre. classify m = K_body) \<and> classify bad = K_body
        \<and> run_all run pre (schema (visible r)) = Some s \<and> (\<forall>s'. run bad s \<noteq> Applied s')"
  let ?r1 = "r\<lparr>visible := (visible r)\<lparr>VersionInfo :=
                      Some (ledger r @ ledger_rows (now r) v (length pre)), schema := s\<rparr>,
       durable := (visible r)\<lparr>VersionInfo := Some (ledger r)\<rparr>,
       autocommit := False,
       executed := executed r @ [sql_create_version_info, sql_select_max_version, sql_begin DEFERRED]
                     @ statements pre,
       errmsg := ''SQL logic error'',
       next_vm := next_vm r + 2 * length pre + (if run bad s = Rejected then 3 else 4)\<rparr>"
  have run: "apply_migrations (reference run) d ms r = (Inl (Exception ''SQL logic error''), ?r1)"
    using a by (intro migrate_fails) simp_all
  have wf1: "wf ?r1"
    using a by (simp add: wf_def)
  have cv: "current_version (ledger r @ ledger_rows (now r) v (length pre)) = int (v + length pre)"
  proof (cases "pre = []")
    case True
    then show ?thesis using a by simp
  next
    case False
    then show ?thesis using a by (intro current_version_extended) simp_all
  qed
  have "get_last_applied_version (reference run) d ?r1 =
    (Inr (word_of_int (current_version (ledger r @ ledger_rows (now r) v (length pre)))),
     ?r1\<lparr>executed := executed ?r1 @ [sql_select_max_version], next_vm := Suc (next_vm ?r1)\<rparr>)"
    using wf1 by (intro exec_select) simp_all
  then have seen: "fst (get_last_applied_version (reference run) d ?r1)
                = Inr (word_of_nat (v + length pre))"
    using cv by simp
  have ctl: "sql_rollback \<notin> set (statements pre) \<and> sql_commit \<notin> set (statements pre)"
    using a by (intro statements_no_control) simp
  show "\<exists>ex r1. apply_migrations (reference run) d ms r = (Inl ex, r1)
            \<and> \<not> autocommit r1
            \<and> executed r1 = executed r
                 @ [sql_create_version_info, sql_select_max_version, sql_begin DEFERRED]
                 @ statements pre
            \<and> sql_rollback \<notin> set (statements pre) \<and> sql_commit \<notin> set (statements pre)
            \<and> ledger r1 = ledger r @ ledger_rows (now r) v (length pre)
            \<and> VersionInfo (durable r1) = Some (ledger r)
            \<and> fst (get_last_applied_version (reference run) d r1)
                = Inr (word_of_nat (v + length pre))"
    using run seen ctl by (simp add: ledger_def)
qed


theorem no_rollback_is_issued_witness:
  "sql_rollback \<notin> set broken_migrations
   \<and> sql_commit \<notin> set broken_migrations
   \<and> sql_rollback \<notin> set (prepared (snd (snd
        (apply_migrations (traced (reference example_run)) example_db broken_migrations
           (fresh [] 0, [])))))
   \<and> isl (fst (apply_migrations (reference example_run) example_db broken_migrations (fresh [] 0)))
   \<and> \<not> autocommit (snd
        (apply_migrations (reference example_run) example_db broken_migrations (fresh [] 0)))
   \<and> VersionInfo (durable (snd
        (apply_migrations (reference example_run) example_db broken_migrations (fresh [] 0))))
       = Some []
   \<and> fst (get_last_applied_version (reference example_run) example_db
        (snd (apply_migrations (reference example_run) example_db broken_migrations (fresh [] 0))))
       = Inr 1"
proof -
  have nr: "sql_rollback \<notin> set broken_migrations" "sql_commit \<notin> set broken_migrations"
    by (simp_all add: broken_migrations_def sql_defs)
  have h: "wf (fresh [] 0 :: string list sqlite) \<and> autocommit (fresh [] 0 :: string list sqlite)
    \<and> current_version (ledger (fresh [] 0 :: string list sqlite)) = int 0
    \<and> 0 < length broken_migrations \<and> length broken_migrations < 2 ^ 31
    \<and> drop 0 broken_migrations = [''CREATE TABLE a (x)''] @ ''bogus'' # [''CREATE TABLE c (z)'']
    \<and> (\<forall>m\<in>set [''CREATE TABLE a (x)'']. classify m = K_body) \<and> classify ''bogus'' = K_body
    \<and> run_all example_run [''CREATE TABLE a (x)''] (schema (visible (fresh [] 0)))
        = Some [''CREATE TABLE a (x)'']
    \<and> (\<forall>s'. example_run ''bogus'' [''CREATE TABLE a (x)''] \<noteq> Applied s')"
    by (simp add: broken_migrations_def example_bodies example_run_def)
  from no_rollback_is_issued
    [where ms = broken_migrations and log = "[]" and E = "reference example_run"
       and d = example_db and e = "fresh [] 0" and r = "fresh [] 0" and v = 0
       and pre = "[''CREATE TABLE a (x)'']" and bad = "''bogus''"
       and post = "[''CREATE TABLE c (z)'']" and run = example_run
       and s = "[''CREATE TABLE a (x)'']"]
  show ?thesis
    using nr h by auto
qed


end
